theory Spec2Isabelle
  imports Main "HOL-Library.Word"
begin

section \<open>Errors, panics and operations\<close>

text \<open>
  A non-nil Go \<open>error\<close>. The two sentinels of the library are values of their own, compared
  by identity; every other error is known by its message (\<open>fmt.Errorf\<close>).
  The Go interface value \<open>error\<close>, which may be nil, is \<open>error option\<close>.
\<close>

datatype error = ErrBreakerOpen | ErrTimeout | Errorf string

text \<open>The method \<open>Error()\<close> of an error: its message.\<close>

fun message :: "error \<Rightarrow> string" where
  "message ErrBreakerOpen = ''circuit breaker is open''"
| "message ErrTimeout = ''timeout exceeded''"
| "message (Errorf m) = m"

text \<open>The value handed to \<open>panic\<close>, and its \<open>%v\<close> form as \<open>fmt.Errorf("%v", r)\<close> prints it.\<close>

datatype pvalue = PString string | PError error

fun fmt_v :: "pvalue \<Rightarrow> string" where
  "fmt_v (PString m) = m"
| "fmt_v (PError e) = message e"

text \<open>
  A call of a \<open>func() error\<close> either returns an error value or panics. The operation reads
  and writes the program state \<open>'s\<close>, so it is a function from the state before the call to
  the outcome and the state after it.
\<close>

datatype outcome = Return "error option" | Panic pvalue

type_synonym 's op = "'s \<Rightarrow> outcome \<times> 's"

text \<open>
  \<open>counted cb\<close> is \<open>cb\<close> with a counter of its invocations beside the state, as the tests'
  \<open>counts++\<close> in the callback.
\<close>

definition counted :: "'s op \<Rightarrow> (nat \<times> 's) op" where
  "counted cb = (\<lambda>(n, s). (fst (cb s), (Suc n, snd (cb s))))"

text \<open>The state before attempt \<open>k\<close> (from 0) of an operation called again and again.\<close>

fun state_before :: "'s op \<Rightarrow> nat \<Rightarrow> 's \<Rightarrow> 's" where
  "state_before cb 0 s = s"
| "state_before cb (Suc k) s = state_before cb k (snd (cb s))"

definition attempt :: "'s op \<Rightarrow> nat \<Rightarrow> 's \<Rightarrow> outcome" where
  "attempt cb k s = fst (cb (state_before cb k s))"

section \<open>Retrier\<close>

text \<open>Go's \<open>uint\<close> on a 64-bit platform.\<close>

type_synonym uint = "64 word"

record Retrier =
  isRetriable :: "error option \<Rightarrow> bool"
  maxAttempts :: uint

definition defaultMaxAttempts :: uint where
  "defaultMaxAttempts = 1"

definition defaultIsRetriable :: "error option \<Rightarrow> bool" where
  "defaultIsRetriable err = (err \<noteq> None)"

datatype retrier_option =
  WithIsRetriable "(error option \<Rightarrow> bool) option"
| WithMaxAttempts uint

fun retrier_apply :: "retrier_option \<Rightarrow> Retrier \<Rightarrow> Retrier" where
  "retrier_apply (WithIsRetriable f) r =
     r\<lparr>isRetriable := (case f of None \<Rightarrow> defaultIsRetriable | Some g \<Rightarrow> g)\<rparr>"
| "retrier_apply (WithMaxAttempts n) r =
     r\<lparr>maxAttempts := (if n = 0 then defaultMaxAttempts else n)\<rparr>"

definition retrier_New :: "retrier_option list \<Rightarrow> Retrier" where
  "retrier_New opts =
     foldl (\<lambda>r opt. retrier_apply opt r)
       \<lparr>isRetriable = defaultIsRetriable, maxAttempts = defaultMaxAttempts\<rparr> opts"

lemma uint_loop_decreases: "i < m \<Longrightarrow> unat (m - (i + 1)) < unat (m - i)" for i m :: uint
  by unat_arith

text \<open>
  The loop of \<open>Retrier.Run\<close>: \<open>for i := uint(0); i < r.maxAttempts; i++\<close>, with \<open>err\<close> the
  variable that holds the last result. A panic of the callback leaves the loop at once.
\<close>

function retrier_loop :: "Retrier \<Rightarrow> 's op \<Rightarrow> uint \<Rightarrow> error option \<Rightarrow> 's \<Rightarrow> outcome \<times> 's" where
  "retrier_loop r cb i err s =
     (if i < maxAttempts r then
        (case cb s of
           (Panic v, s') \<Rightarrow> (Panic v, s')
         | (Return err', s') \<Rightarrow>
             if err' = None \<or> \<not> isRetriable r err' then (Return err', s')
             else retrier_loop r cb (i + 1) err' s')
      else (Return err, s))"
  by pat_completeness auto
termination
  by (relation "measure (\<lambda>(r, cb, i, err, s). unat (maxAttempts r - i))")
     (auto simp: uint_loop_decreases)

definition retrier_Run :: "Retrier option \<Rightarrow> 's op \<Rightarrow> 's op" where
  "retrier_Run p cb s =
     (case p of
        None \<Rightarrow> cb s
      | Some r \<Rightarrow> retrier_loop r cb 0 None s)"

declare retrier_loop.simps [simp del]

text \<open>
  How the loop reads one attempt's outcome: it goes on after a non-nil error that
  \<open>isRetriable\<close> accepts, and stops on everything else.
\<close>

fun retries :: "Retrier \<Rightarrow> outcome \<Rightarrow> bool" where
  "retries r (Return (Some e)) = isRetriable r (Some e)"
| "retries r (Return None) = False"
| "retries r (Panic v) = False"

fun stops :: "Retrier \<Rightarrow> outcome \<Rightarrow> bool" where
  "stops r (Return err) = (err = None \<or> \<not> isRetriable r err)"
| "stops r (Panic v) = True"

text \<open>
  The retrier and the callback of the test \<open>TestWithOverrides\<close>: three attempts, every error
  but \<open>perm err\<close> retriable, and a callback whose second call returns \<open>perm err\<close>.
\<close>

definition retrier3 :: Retrier where
  "retrier3 = retrier_New
     [WithIsRetriable (Some (\<lambda>err. case err of None \<Rightarrow> True | Some e \<Rightarrow> message e \<noteq> ''perm err'')),
      WithMaxAttempts 3]"

definition flaky :: "nat op" where
  "flaky counts =
     (Return (Some (Errorf (if Suc counts = 2 then ''perm err'' else ''oops''))), Suc counts)"

section \<open>Time and the program state\<close>

text \<open>
  \<open>time.Time\<close> and \<open>time.Duration\<close> in nanoseconds; the zero \<open>time.Time{}\<close> is 0. The
  library only compares times and adds a duration to a time, so both are plain integers.
  The world outside the library's own objects holds the wall clock, which \<open>time.Now\<close> reads,
  and the variables of the user's closures; an injected clock (\<open>WithNow\<close>) is a function that
  reads the world.
\<close>

type_synonym time = int
type_synonym duration = int

record 'u world =
  wall_clock :: time
  vars :: 'u

definition time_Now :: "'u world \<Rightarrow> time" where
  "time_Now w = wall_clock w"

section \<open>Breaker\<close>

datatype Status = Closed | HalfOpen | Open

fun Status_String :: "Status \<Rightarrow> string" where
  "Status_String Closed = ''closed''"
| "Status_String HalfOpen = ''half-open''"
| "Status_String Open = ''open''"

definition defaultMaxFailures :: uint where
  "defaultMaxFailures = 5"

definition defaultMaxRequests :: uint where
  "defaultMaxRequests = 1"

definition defaultTimeout :: duration where
  "defaultTimeout = 60 * 1000000000"

definition defaultIsFailure :: "error option \<Rightarrow> bool" where
  "defaultIsFailure err = (err \<noteq> None)"

record 'u State =
  status :: Status
  expiresAt :: time
  Failures :: uint
  Successes :: uint
  state_now :: "'u world \<Rightarrow> time"

text \<open>
  \<open>State.Status()\<close>: the observed status, read at the world \<open>w\<close> through the state's clock.
  \<open>!s.expiresAt.After(s.now())\<close> is \<open>\<not> state_now s w < expiresAt s\<close>.
\<close>

definition State_Status :: "'u State \<Rightarrow> 'u world \<Rightarrow> Status" where
  "State_Status s w =
     (if status s = Open \<and> \<not> state_now s w < expiresAt s then HalfOpen else status s)"

definition failure :: "'u State \<Rightarrow> 'u State" where
  "failure s = s\<lparr>Failures := Failures s + 1, Successes := 0\<rparr>"

definition success :: "'u State \<Rightarrow> 'u State" where
  "success s = s\<lparr>Successes := Successes s + 1, Failures := 0\<rparr>"

text \<open>
  The struct \<open>Breaker\<close>: its configuration and, under the lock, \<open>requests\<close> and \<open>state\<close>.
  The lock has no field here: every section of the source that holds it is one function
  of the model, so it is one atomic step.
\<close>

record 'u Breaker =
  isFailure :: "error option \<Rightarrow> bool"
  maxFailures :: uint
  maxRequests :: uint
  now :: "'u world \<Rightarrow> time"
  timeout :: duration
  requests :: uint
  state :: "'u State"

text \<open>\<open>State{now: f}\<close> and \<open>State{status: st, now: f}\<close>: every other field zero.\<close>

definition new_State :: "Status \<Rightarrow> ('u world \<Rightarrow> time) \<Rightarrow> 'u State" where
  "new_State st f = \<lparr>status = st, expiresAt = 0, Failures = 0, Successes = 0, state_now = f\<rparr>"

datatype 'u breaker_option =
  WithIsFailure "(error option \<Rightarrow> bool) option"
| WithMaxHalfOpenRequests uint
| WithMaxFailures uint
| WithNow "('u world \<Rightarrow> time) option"
| WithTimeout duration

fun breaker_apply :: "'u breaker_option \<Rightarrow> 'u Breaker \<Rightarrow> 'u Breaker" where
  "breaker_apply (WithIsFailure f) b =
     b\<lparr>isFailure := (case f of None \<Rightarrow> defaultIsFailure | Some g \<Rightarrow> g)\<rparr>"
| "breaker_apply (WithMaxHalfOpenRequests n) b =
     b\<lparr>maxRequests := (if n = 0 then defaultMaxRequests else n)\<rparr>"
| "breaker_apply (WithMaxFailures n) b =
     b\<lparr>maxFailures := (if n = 0 then defaultMaxFailures else n)\<rparr>"
| "breaker_apply (WithNow f) b =
     b\<lparr>now := (case f of None \<Rightarrow> time_Now | Some g \<Rightarrow> g)\<rparr>"
| "breaker_apply (WithTimeout d) b =
     b\<lparr>timeout := (if d = 0 then defaultTimeout else d)\<rparr>"

definition breaker_New :: "'u breaker_option list \<Rightarrow> 'u Breaker" where
  "breaker_New opts =
     (let b = foldl (\<lambda>b opt. breaker_apply opt b)
                \<lparr>isFailure = defaultIsFailure, maxFailures = defaultMaxFailures,
                 maxRequests = defaultMaxRequests, now = time_Now, timeout = defaultTimeout,
                 requests = 0, state = new_State Closed time_Now\<rparr> opts
      in b\<lparr>state := new_State Closed (now b)\<rparr>)"

text \<open>
  Breakers are shared through pointers and mutated in place, so they live in a heap,
  addressed by numbers; a \<open>*Breaker\<close> is an address or nil. The program state is the heap
  and the world. An operation runs on the whole state: a callback may itself call the
  breaker that runs it.
\<close>

record 'u store =
  heap :: "nat \<Rightarrow> 'u Breaker"
  world :: "'u world"

definition put_breaker :: "nat \<Rightarrow> 'u Breaker \<Rightarrow> 'u store \<Rightarrow> 'u store" where
  "put_breaker a b s = s\<lparr>heap := (heap s)(a := b)\<rparr>"

text \<open>\<open>Breaker.State()\<close>: the state of a nil breaker is \<open>State{now: time.Now}\<close>.\<close>

definition Breaker_State :: "nat option \<Rightarrow> 'u store \<Rightarrow> 'u State" where
  "Breaker_State p s =
     (case p of None \<Rightarrow> new_State Closed time_Now | Some a \<Rightarrow> state (heap s a))"

definition canMakeHalfOpenRequest :: "'u Breaker \<Rightarrow> bool \<times> 'u Breaker" where
  "canMakeHalfOpenRequest b =
     (if maxRequests b \<le> requests b then (False, b)
      else (True, b\<lparr>requests := requests b + 1\<rparr>))"

definition shouldOpen :: "'u Breaker \<Rightarrow> bool" where
  "shouldOpen b = (maxFailures b \<le> Failures (state b))"

definition setState :: "'u Breaker \<Rightarrow> Status \<Rightarrow> 'u world \<Rightarrow> 'u Breaker" where
  "setState b st w =
     (let b1 = b\<lparr>requests := 0, state := new_State st (now b)\<rparr>
      in if st = Open then b1\<lparr>state := (state b1)\<lparr>expiresAt := now b1 w + timeout b1\<rparr>\<rparr>
         else b1)"

text \<open>
  \<open>handleError(state, err)\<close> on the breaker \<open>b\<close>, in the world \<open>w\<close> that the clock reads.
  \<open>st\<close> is the snapshot that \<open>Run\<close> took before it ran the callback; the early exit reads
  the snapshot, the switch reads the breaker's present state.
\<close>

definition handleError :: "'u Breaker \<Rightarrow> 'u State \<Rightarrow> error option \<Rightarrow> 'u world \<Rightarrow> 'u Breaker" where
  "handleError b st err w =
     (let is_failure = (err \<noteq> None \<and> isFailure b err) in
      if status st = Closed \<and> \<not> is_failure \<and> Failures st = 0 then b
      else
        (case State_Status (state b) w of
           Closed \<Rightarrow>
             if is_failure then
               (let b1 = b\<lparr>state := failure (state b)\<rparr>
                in if shouldOpen b1 then setState b1 Open w else b1)
             else b\<lparr>state := (state b)\<lparr>Failures := 0\<rparr>\<rparr>
         | HalfOpen \<Rightarrow>
             if is_failure then setState b Open w
             else
               (let b1 = b\<lparr>state := success (state b)\<rparr>
                in if Successes (state b1) = maxRequests b1 then setState b1 Closed w else b1)
         | Open \<Rightarrow> b))"

text \<open>\<open>safeRun\<close>: the recovery barrier turns a panic into \<open>fmt.Errorf("%v", r)\<close>.\<close>

definition safeRun :: "'s op \<Rightarrow> 's \<Rightarrow> error option \<times> 's" where
  "safeRun cb s =
     (case cb s of
        (Return err, s') \<Rightarrow> (err, s')
      | (Panic v, s') \<Rightarrow> (Some (Errorf (fmt_v v)), s'))"

text \<open>
  \<open>Breaker.Run\<close>. The receiver is a pointer: nil, or the address of a breaker in the heap.
  \<open>canMakeHalfOpenRequest\<close> is called only when the observed status is \<open>HalfOpen\<close>, and
  writes the breaker back; \<open>handleError\<close> works on the breaker as the callback left it.
\<close>

definition breaker_Run :: "nat option \<Rightarrow> 'u store op \<Rightarrow> 'u store op" where
  "breaker_Run p cb s =
     (case p of
        None \<Rightarrow> cb s
      | Some a \<Rightarrow>
          (let st = Breaker_State (Some a) s;
               observed = State_Status st (world s)
           in if observed = Open then (Return (Some ErrBreakerOpen), s)
              else if observed = HalfOpen \<and> \<not> fst (canMakeHalfOpenRequest (heap s a))
                then (Return (Some ErrBreakerOpen),
                      put_breaker a (snd (canMakeHalfOpenRequest (heap s a))) s)
              else
                (let s0 = (if observed = HalfOpen
                           then put_breaker a (snd (canMakeHalfOpenRequest (heap s a))) s
                           else s);
                     (err, s1) = safeRun cb s0;
                     s2 = put_breaker a (handleError (heap s1 a) st err (world s1)) s1
                 in (Return err, s2))))"

section \<open>Timer\<close>

record Timer =
  duration :: duration

definition timer_New :: "duration \<Rightarrow> Timer" where
  "timer_New d = \<lparr>duration = d\<rparr>"

text \<open>
  With a positive duration \<open>Timer.Run\<close> starts the callback in a goroutine and selects on the
  timer's channel and the goroutine's \<open>done\<close> channel. Which of the two fires first is the
  scheduler's choice and the choice is an argument of the model.
\<close>

datatype race = DoneFirst | TimerFirst

text \<open>
  \<open>Timer.Run\<close>. Without a timer, or with a duration that is not positive, the callback is
  called in place: \<open>return cb()\<close>. In the goroutine a panic is recovered and sent as an
  error. When the timer fires first the callback still runs to its end in the background:
  the model keeps its effects on the state and drops its result.
\<close>

definition timer_Run :: "Timer option \<Rightarrow> race \<Rightarrow> 's op \<Rightarrow> 's op" where
  "timer_Run p first cb s =
     (case p of
        None \<Rightarrow> cb s
      | Some t \<Rightarrow>
          if duration t \<le> 0 then cb s
          else
            (case first of
               TimerFirst \<Rightarrow> (Return (Some ErrTimeout), snd (cb s))
             | DoneFirst \<Rightarrow>
                 (case cb s of
                    (Panic v, s') \<Rightarrow> (Return (Some (Errorf (fmt_v v))), s')
                  | (Return err, s') \<Rightarrow> (Return err, s'))))"

section \<open>Fallback\<close>

record 's Fallback =
  useFallback :: "error option \<Rightarrow> bool"
  call :: "'s op"

definition defaultUseFallback :: "error option \<Rightarrow> bool" where
  "defaultUseFallback err = (err \<noteq> None)"

datatype fallback_option = WithUseFallback "(error option \<Rightarrow> bool) option"

fun fallback_apply :: "fallback_option \<Rightarrow> 's Fallback \<Rightarrow> 's Fallback" where
  "fallback_apply (WithUseFallback f) fb =
     fb\<lparr>useFallback := (case f of None \<Rightarrow> defaultUseFallback | Some g \<Rightarrow> g)\<rparr>"

definition fallback_New :: "'s op option \<Rightarrow> fallback_option list \<Rightarrow> 's Fallback" where
  "fallback_New c opts =
     foldl (\<lambda>fb opt. fallback_apply opt fb)
       \<lparr>useFallback = defaultUseFallback,
        call = (case c of None \<Rightarrow> (\<lambda>s. (Return None, s)) | Some g \<Rightarrow> g)\<rparr> opts"

definition UseFallback :: "'s Fallback option \<Rightarrow> error option \<Rightarrow> bool" where
  "UseFallback p err = (case p of None \<Rightarrow> False | Some fb \<Rightarrow> useFallback fb err)"

definition fallback_Call :: "'s Fallback option \<Rightarrow> 's op" where
  "fallback_Call p s = (case p of None \<Rightarrow> (Return None, s) | Some fb \<Rightarrow> call fb s)"

section \<open>Caller\<close>

text \<open>
  The retrier, the timer and the fallback are never written after their construction, so
  the caller holds them by value; the breaker is held by its address.
\<close>

record 'u Caller =
  dependency :: string
  key :: string
  name :: string
  breaker :: "nat option"
  fallback :: "'u store Fallback option"
  retrier :: "Retrier option"
  timer :: "Timer option"






text \<open>
  \<open>Caller.Call\<close>. \<open>first\<close> is the race of the timer's select. A panic that leaves
  \<open>Timer.Run\<close> passes the fallback by.
\<close>

definition caller_Call :: "'u Caller \<Rightarrow> race \<Rightarrow> 'u store op \<Rightarrow> 'u store op" where
  "caller_Call c first cb s =
     (case timer_Run (timer c) first
             (breaker_Run (breaker c) (retrier_Run (retrier c) cb)) s of
        (Panic v, s1) \<Rightarrow> (Panic v, s1)
      | (Return err, s1) \<Rightarrow>
          if UseFallback (fallback c) err then fallback_Call (fallback c) s1
          else (Return err, s1))"

section \<open>Telemetry client\<close>

text \<open>
  A telemetry record (\<open>api.Call\<close>) and the request that carries a batch. The wire encoding
  (\<open>toProto\<close>) is outside the model: a transmission is the request handed to the RPC stub,
  and the wire is the list of the requests transmitted so far.
\<close>

record Call =
  Dependency :: string
  Duration :: duration
  Error :: "error option"
  Name :: string
  StartedAt :: time

record RecordCallsRequest =
  Calls :: "Call list"
  Environment :: string
  Service :: string

type_synonym wire = "RecordCallsRequest list"

text \<open>The struct \<open>client\<close>; \<open>api\<close> is the reply of the RPC stub to a request.\<close>

record Client =
  api :: "RecordCallsRequest \<Rightarrow> error option"

definition client_RecordCalls :: "Client option \<Rightarrow> RecordCallsRequest \<Rightarrow> wire \<Rightarrow> error option \<times> wire" where
  "client_RecordCalls c req tx =
     (case c of
        None \<Rightarrow> (None, tx)
      | Some cl \<Rightarrow>
          if length (Calls req) = 0 then (None, tx)
          else (api cl req, tx @ [req]))"

section \<open>Daemon\<close>

definition bufferSize :: nat where
  "bufferSize = 100"

text \<open>
  A Go channel: its capacity and the elements pending in its buffer. A send goes through
  at once when a receiver waits on the channel or the buffer has room, and blocks
  otherwise.
\<close>

record 'a chan =
  capacity :: nat
  pending :: "'a list"

definition make_chan :: "nat \<Rightarrow> 'a chan" where
  "make_chan n = \<lparr>capacity = n, pending = []\<rparr>"

definition send_blocks :: "'a chan \<Rightarrow> bool \<Rightarrow> bool" where
  "send_blocks ch receiver_waits = (\<not> receiver_waits \<and> capacity ch \<le> length (pending ch))"

text \<open>Of \<open>url.URL\<close> the daemon reads the host only.\<close>

record URL =
  Host :: string

record 'u Daemon =
  addr :: URL
  env :: string
  service :: string
  callCh :: "Call chan"
  client :: "Client option"
  registry :: "string \<Rightarrow> 'u Caller option"

datatype optionD =
  WithClient "Client option"
| WithEnvironment string
| WithServerAddr URL
| WithService string

fun daemon_apply :: "optionD \<Rightarrow> 'u Daemon \<Rightarrow> 'u Daemon" where
  "daemon_apply (WithClient c) d = d\<lparr>client := c\<rparr>"
| "daemon_apply (WithEnvironment e) d = d\<lparr>env := e\<rparr>"
| "daemon_apply (WithServerAddr a) d = d\<lparr>addr := a\<rparr>"
| "daemon_apply (WithService sv) d = d\<lparr>service := sv\<rparr>"

text \<open>\<open>NewD\<close>: \<open>make(chan errcatapi.Call)\<close> has no capacity argument.\<close>

definition NewD :: "optionD list \<Rightarrow> 'u Daemon" where
  "NewD opts =
     foldl (\<lambda>d opt. daemon_apply opt d)
       \<lparr>addr = \<lparr>Host = ''''\<rparr>, env = '''', service = '''', callCh = make_chan 0,
        client = None, registry = Map.empty\<rparr> opts"

text \<open>
  \<open>RegisterCaller\<close>. The error for a key that is already registered quotes the caller's
  dependency and name in its message; the model keeps the start of the message only.
\<close>

definition RegisterCaller :: "'u Daemon option \<Rightarrow> 'u Caller \<Rightarrow> (string \<times> error option) \<times> 'u Daemon option" where
  "RegisterCaller p c =
     (case p of
        None \<Rightarrow> (('''', None), None)
      | Some d \<Rightarrow>
          (case registry d (key c) of
             Some c' \<Rightarrow>
               ((key c, Some (Errorf ''caller has already been registered'')), Some d)
           | None \<Rightarrow> ((key c, None), Some (d\<lparr>registry := (registry d)(key c \<mapsto> c)\<rparr>))))"

definition enabled :: "'u Daemon \<Rightarrow> bool" where
  "enabled d = (client d \<noteq> None \<or> Host (addr d) \<noteq> '''')"

text \<open>The zero \<open>Caller\<close>, which a Go map returns for a key it does not hold.\<close>

definition zero_Caller :: "'u Caller" where
  "zero_Caller =
     \<lparr>dependency = '''', key = '''', name = '''',
      breaker = None, fallback = None, retrier = None, timer = None\<rparr>"

definition lookup_caller :: "'u Daemon \<Rightarrow> string \<Rightarrow> 'u Caller" where
  "lookup_caller d k = (case registry d k of None \<Rightarrow> zero_Caller | Some c \<Rightarrow> c)"

text \<open>
  \<open>Daemon.Call\<close>. The result is the outcome, the state after the call and the telemetry
  record that the deferred function sends on \<open>callCh\<close>, if the daemon is enabled. On a nil
  daemon the callback is called in place and nothing is recorded.
\<close>

definition daemon_Call :: "'u Daemon option \<Rightarrow> race \<Rightarrow> string \<Rightarrow> 'u store op \<Rightarrow> 'u store \<Rightarrow> outcome \<times> 'u store \<times> Call option" where
  "daemon_Call p first k cb s =
     (case p of
        None \<Rightarrow> (fst (cb s), snd (cb s), None)
      | Some d \<Rightarrow>
          (let caller = lookup_caller d k;
               started = time_Now (world s);
               (out, s1) = caller_Call caller first cb s;
               err = (case out of Return e \<Rightarrow> e | Panic v \<Rightarrow> Some (Errorf (fmt_v v)));
               record = \<lparr>Dependency = dependency caller,
                         Duration = time_Now (world s1) - started,
                         Error = err, Name = name caller, StartedAt = started\<rparr>
           in (Return err, s1, if enabled d then Some record else None)))"

text \<open>
  \<open>safeClient\<close> and \<open>send\<close>. \<open>dial\<close> stands for \<open>errcatapi.NewClient\<close>, which connects to
  the host and may fail; \<open>safeClient\<close> stores what it returns in the daemon.
\<close>

definition safeClient :: "(string \<Rightarrow> Client option) \<Rightarrow> 'u Daemon \<Rightarrow> Client option \<times> 'u Daemon" where
  "safeClient dial d =
     (case client d of
        Some c \<Rightarrow> (Some c, d)
      | None \<Rightarrow> (dial (Host (addr d)), d\<lparr>client := dial (Host (addr d))\<rparr>))"

definition send :: "(string \<Rightarrow> Client option) \<Rightarrow> 'u Daemon \<Rightarrow> Call list \<Rightarrow> wire \<Rightarrow> 'u Daemon \<times> wire" where
  "send dial d calls tx =
     (if length calls = 0 then (d, tx)
      else
        (case safeClient dial d of
           (None, d1) \<Rightarrow> (d1, tx)
         | (Some c, d1) \<Rightarrow>
             (d1, snd (client_RecordCalls (Some c)
                         \<lparr>Calls = calls, Environment = env d1, Service = service d1\<rparr> tx))))"

text \<open>
  The worker \<open>consumeCalls\<close>. Each turn of its loop is one event of the select: a record
  received from \<open>callCh\<close>, a tick, or the cancellation of the context. The worker is run
  over the list of the events that happen; when the list ends before a cancellation the
  worker waits in its select.
\<close>

datatype event = Received Call | Tick | Cancelled

datatype worker = Waiting | Exited

fun consume_loop :: "(string \<Rightarrow> Client option) \<Rightarrow> 'u Daemon \<Rightarrow> Call list \<Rightarrow> event list \<Rightarrow> wire \<Rightarrow> worker \<times> 'u Daemon \<times> Call list \<times> wire" where
  "consume_loop dial d calls [] tx = (Waiting, d, calls, tx)"
| "consume_loop dial d calls (Received c # evs) tx =
     (let calls1 = calls @ [c]
      in if length calls1 = bufferSize
         then (case send dial d calls1 tx of (d1, tx1) \<Rightarrow> consume_loop dial d1 [] evs tx1)
         else consume_loop dial d calls1 evs tx)"
| "consume_loop dial d calls (Tick # evs) tx =
     (case send dial d calls tx of (d1, tx1) \<Rightarrow> consume_loop dial d1 [] evs tx1)"
| "consume_loop dial d calls (Cancelled # evs) tx =
     (case send dial d calls tx of (d1, tx1) \<Rightarrow> (Exited, d1, calls, tx1))"

definition consumeCalls :: "(string \<Rightarrow> Client option) \<Rightarrow> 'u Daemon \<Rightarrow> event list \<Rightarrow> wire \<Rightarrow> worker \<times> 'u Daemon \<times> Call list \<times> wire" where
  "consumeCalls dial d evs tx =
     (if \<not> enabled d then (Exited, d, [], tx)
      else consume_loop dial d [] evs tx)"

section \<open>The breaker after a transition, and the scenario of the tests\<close>

text \<open>
  What \<open>setState\<close> leaves: \<open>opened b w\<close> is the breaker \<open>b\<close> after \<open>setState(Open)\<close> in the
  world \<open>w\<close>, \<open>closed_again b\<close> after \<open>setState(Closed)\<close>. Both reset \<open>requests\<close> and both
  counters; \<open>opened\<close> sets the expiry to the clock's reading plus the timeout.
\<close>

definition opened :: "'u Breaker \<Rightarrow> 'u world \<Rightarrow> 'u Breaker" where
  "opened b w =
     b\<lparr>requests := 0,
       state := \<lparr>status = Open, expiresAt = now b w + timeout b, Failures = 0, Successes = 0,
                 state_now = now b\<rparr>\<rparr>"

definition closed_again :: "'u Breaker \<Rightarrow> 'u Breaker" where
  "closed_again b =
     b\<lparr>requests := 0,
       state := \<lparr>status = Closed, expiresAt = 0, Failures = 0, Successes = 0,
                 state_now = now b\<rparr>\<rparr>"

text \<open>
  The scenario of \<open>TestWithDefaults\<close>: a breaker made by \<open>New()\<close> at address 0, the wall
  clock at 0, and callbacks that count their invocations in the world's variable.
  \<open>oops_cb\<close> returns the error \<open>oops\<close>, \<open>fine_cb\<close> returns nil; \<open>sleep d\<close> lets the time
  \<open>d\<close> pass. \<open>failed k\<close> is the state after \<open>k\<close> calls of \<open>Run\<close> with \<open>oops_cb\<close>.
\<close>

definition fresh :: "nat store" where
  "fresh = \<lparr>heap = (\<lambda>a. breaker_New []), world = \<lparr>wall_clock = 0, vars = 0\<rparr>\<rparr>"

definition oops_cb :: "nat store op" where
  "oops_cb s =
     (Return (Some (Errorf ''oops'')), s\<lparr>world := (world s)\<lparr>vars := Suc (vars (world s))\<rparr>\<rparr>)"

definition fine_cb :: "nat store op" where
  "fine_cb s = (Return None, s\<lparr>world := (world s)\<lparr>vars := Suc (vars (world s))\<rparr>\<rparr>)"

definition sleep :: "duration \<Rightarrow> 'u store \<Rightarrow> 'u store" where
  "sleep d s = s\<lparr>world := (world s)\<lparr>wall_clock := wall_clock (world s) + d\<rparr>\<rparr>"

definition failed :: "nat \<Rightarrow> nat store" where
  "failed k = state_before (breaker_Run (Some 0) oops_cb) k fresh"

text \<open>
  The default breaker with a streak of \<open>n\<close> failures, and the default breaker opened with
  the expiry \<open>t\<close>.
\<close>

definition streak :: "uint \<Rightarrow> 'u Breaker" where
  "streak n = (breaker_New [])\<lparr>state := (state (breaker_New []))\<lparr>Failures := n\<rparr>\<rparr>"

definition tripped :: "time \<Rightarrow> 'u Breaker" where
  "tripped t =
     (breaker_New [])\<lparr>state := \<lparr>status = Open, expiresAt = t, Failures = 0, Successes = 0,
                                  state_now = time_Now\<rparr>\<rparr>"

text \<open>
  \<open>admissions n b\<close>: \<open>n\<close> calls of \<open>canMakeHalfOpenRequest\<close> in a row, as \<open>n\<close> calls of
  \<open>Run\<close> make them while the breaker is observed \<open>HalfOpen\<close> and no transition resets
  \<open>requests\<close>; the result counts the calls that were admitted.
\<close>

fun admissions :: "nat \<Rightarrow> 'u Breaker \<Rightarrow> nat \<times> 'u Breaker" where
  "admissions 0 b = (0, b)"
| "admissions (Suc n) b =
     (case canMakeHalfOpenRequest b of
        (True, b') \<Rightarrow> (case admissions n b' of (k, b'') \<Rightarrow> (Suc k, b''))
      | (False, b') \<Rightarrow> admissions n b')"

text \<open>
  The scenario goes on: \<open>half_open\<close> is the state 60 s after the fifth failure, and
  \<open>saturated\<close> is that state with one half-open request already admitted.
\<close>

definition half_open :: "nat store" where
  "half_open = sleep 60000000000 (failed 5)"

definition saturated :: "nat store" where
  "saturated = put_breaker 0 ((heap half_open 0)\<lparr>requests := 1\<rparr>) half_open"

text \<open>
  Two more scenarios. \<open>always_failing\<close> holds a breaker made with
  \<open>WithIsFailure(func(err error) bool { return true })\<close>, a predicate that accepts nil too.
  \<open>three_inside\<close> is a callback that itself calls \<open>Run\<close> on the breaker three times with
  \<open>oops_cb\<close> and then returns nil, as a slow call sees three other calls fail while it runs.
\<close>

definition always_failing :: "nat store" where
  "always_failing =
     \<lparr>heap = (\<lambda>a. breaker_New [WithIsFailure (Some (\<lambda>err. True))]),
      world = \<lparr>wall_clock = 0, vars = 0\<rparr>\<rparr>"

definition three_inside :: "nat store op" where
  "three_inside s = (Return None, state_before (breaker_Run (Some 0) oops_cb) 3 s)"

text \<open>
  The breakers that the exported interface can produce: \<open>New\<close> makes them, and only the
  two locked sections of \<open>Run\<close> write them.
\<close>

inductive reachable :: "'u Breaker \<Rightarrow> bool" where
  made: "reachable (breaker_New opts)"
| admitted: "reachable b \<Longrightarrow> reachable (snd (canMakeHalfOpenRequest b))"
| accounted: "reachable b \<Longrightarrow> reachable (handleError b st err w)"

text \<open>
  \<open>trip_inside\<close> is a callback during which the breaker is tripped by five failing calls
  and the timeout passes, and which then returns nil: a slow call that was admitted while
  the breaker was \<open>Closed\<close> and ends while it is observed \<open>HalfOpen\<close>.
\<close>

definition trip_inside :: "nat store op" where
  "trip_inside s =
     (Return None, sleep 60000000000 (state_before (breaker_Run (Some 0) oops_cb) 5 s))"

text \<open>
  \<open>recovered cb\<close> is \<open>cb\<close> behind a recovery barrier: a panic with the value \<open>v\<close> becomes the
  returned error \<open>fmt.Errorf("%v", v)\<close>.
\<close>

definition recovered :: "'s op \<Rightarrow> 's op" where
  "recovered cb s =
     (case cb s of
        (Panic v, s') \<Rightarrow> (Return (Some (Errorf (fmt_v v))), s')
      | (Return err, s') \<Rightarrow> (Return err, s'))"

text \<open>The callback of the tests' \<open>func() error { panic("oops") }\<close>, counting its calls.\<close>

definition panic_cb :: "nat store op" where
  "panic_cb s =
     (Panic (PString ''oops''), s\<lparr>world := (world s)\<lparr>vars := Suc (vars (world s))\<rparr>\<rparr>)"







text \<open>A daemon made with \<open>WithServerAddr\<close>, so enabled, with no caller registered.\<close>

definition local_daemon :: "nat Daemon" where
  "local_daemon = NewD [WithServerAddr \<lparr>Host = ''localhost:8000''\<rparr>, WithEnvironment ''dev'']"

text \<open>
  The records that the worker receives over a list of events: those of the \<open>Received\<close>
  events up to the first cancellation, in their order.
\<close>

fun received :: "event list \<Rightarrow> Call list" where
  "received [] = []"
| "received (Received c # evs) = c # received evs"
| "received (Tick # evs) = received evs"
| "received (Cancelled # evs) = []"

text \<open>
  A batch as the worker hands it to the client: not empty, at most \<open>bufferSize\<close> records,
  labelled with the daemon's environment and service.
\<close>

definition batch_of :: "'u Daemon \<Rightarrow> RecordCallsRequest \<Rightarrow> bool" where
  "batch_of d req =
     (0 < length (Calls req) \<and> length (Calls req) \<le> bufferSize
      \<and> Environment req = env d \<and> Service req = service d)"

text \<open>A daemon with a client whose stub accepts every request, and two records.\<close>

definition mock_daemon :: "nat Daemon" where
  "mock_daemon = NewD [WithClient (Some \<lparr>api = (\<lambda>req. None)\<rparr>), WithService ''web'']"

definition call_a :: Call where
  "call_a = \<lparr>Dependency = ''mysql'', Duration = 5, Error = None, Name = ''users.GetUser'', StartedAt = 1\<rparr>"

definition call_b :: Call where
  "call_b = \<lparr>Dependency = ''mysql'', Duration = 7, Error = Some (Errorf ''oops''),
              Name = ''users.GetUser'', StartedAt = 9\<rparr>"

section \<open>The retrier's algorithm\<close>


lemma uint_remaining_pos: "0 < unat (m - i) \<Longrightarrow> i \<le> m \<Longrightarrow> i < m" for i m :: uint
  by unat_arith

lemma uint_remaining_Suc: "i < m \<Longrightarrow> unat (m - (i + 1)) = unat (m - i) - 1" for i m :: uint
  by unat_arith

lemma uint_succ_le: "i < m \<Longrightarrow> i + 1 \<le> m" for i m :: uint
  by unat_arith

lemma retrier_loop_done: "\<not> i < maxAttempts r \<Longrightarrow> retrier_loop r cb i err s = (Return err, s)"
  by (subst retrier_loop.simps) simp

lemma retrier_loop_panic:
  "i < maxAttempts r \<Longrightarrow> cb s = (Panic v, s') \<Longrightarrow> retrier_loop r cb i err s = (Panic v, s')"
  by (subst retrier_loop.simps) simp

lemma retrier_loop_return:
  "i < maxAttempts r \<Longrightarrow> cb s = (Return e, s') \<Longrightarrow> e = None \<or> \<not> isRetriable r e \<Longrightarrow>
   retrier_loop r cb i err s = (Return e, s')"
  by (subst retrier_loop.simps) auto

lemma retrier_loop_again:
  "i < maxAttempts r \<Longrightarrow> cb s = (Return (Some e), s') \<Longrightarrow> isRetriable r (Some e) \<Longrightarrow>
   retrier_loop r cb i err s = retrier_loop r cb (i + 1) (Some e) s'"
  by (subst retrier_loop.simps) simp

lemma retriesE: "retries r out \<Longrightarrow> \<exists>e. out = Return (Some e) \<and> isRetriable r (Some e)"
  by (cases "(r, out)" rule: retries.cases) auto

lemma state_before_Suc: "state_before cb (Suc k) s = snd (cb (state_before cb k s))"
  by (induction k arbitrary: s) simp_all

lemma attempt_0: "attempt cb 0 s = fst (cb s)"
  by (simp add: attempt_def)

lemma attempt_Suc: "attempt cb (Suc k) s = attempt cb k (snd (cb s))"
  by (simp add: attempt_def)

lemma retrier_loop_stops:
  "i \<le> maxAttempts r \<Longrightarrow> k < unat (maxAttempts r - i) \<Longrightarrow>
   (\<forall>j<k. retries r (attempt cb j s)) \<Longrightarrow> stops r (attempt cb k s) \<Longrightarrow>
   retrier_loop r cb i err s = (attempt cb k s, state_before cb (Suc k) s)"
proof (induction k arbitrary: i err s)
  case 0
  then have lt: "i < maxAttempts r" by (simp add: uint_remaining_pos)
  obtain out s' where c: "cb s = (out, s')" by (cases "cb s")
  with 0 lt show ?case
    by (cases out) (auto simp: attempt_0 retrier_loop_panic retrier_loop_return)
next
  case (Suc k)
  then have lt: "i < maxAttempts r" by (simp add: uint_remaining_pos)
  obtain out s' where c: "cb s = (out, s')" by (cases "cb s")
  from Suc.prems(3) have r0: "retries r (attempt cb 0 s)" by blast
  with c obtain e where out: "out = Return (Some e)" and re: "isRetriable r (Some e)"
    by (auto simp: attempt_0 dest: retriesE)
  have "retrier_loop r cb (i + 1) (Some e) s' = (attempt cb k s', state_before cb (Suc k) s')"
  proof (rule Suc.IH)
    show "i + 1 \<le> maxAttempts r" using lt by (rule uint_succ_le)
    show "k < unat (maxAttempts r - (i + 1))" using Suc.prems(2) lt by (simp add: uint_remaining_Suc)
    show "\<forall>j<k. retries r (attempt cb j s')" using Suc.prems(3) c by (auto simp: attempt_Suc dest: spec[of _ "Suc _"])
    show "stops r (attempt cb k s')" using Suc.prems(4) c by (simp add: attempt_Suc)
  qed
  with lt c out re show ?case by (simp add: attempt_Suc retrier_loop_again)
qed


lemma retrier_loop_exhausts:
  "i \<le> maxAttempts r \<Longrightarrow> m = unat (maxAttempts r - i) \<Longrightarrow>
   (\<forall>j<m. retries r (attempt cb j s)) \<Longrightarrow>
   retrier_loop r cb i err s =
     (if m = 0 then (Return err, s) else (attempt cb (m - 1) s, state_before cb m s))"
proof (induction m arbitrary: i err s)
  case 0
  then have "\<not> i < maxAttempts r" by unat_arith
  then show ?case using 0 by (simp add: retrier_loop_done)
next
  case (Suc m)
  then have lt: "i < maxAttempts r" by (simp add: uint_remaining_pos)
  obtain out s' where c: "cb s = (out, s')" by (cases "cb s")
  from Suc.prems(3) have "retries r (attempt cb 0 s)" by blast
  with c obtain e where out: "out = Return (Some e)" and re: "isRetriable r (Some e)"
    by (auto simp: attempt_0 dest: retriesE)
  have step: "retrier_loop r cb (i + 1) (Some e) s' =
      (if m = 0 then (Return (Some e), s') else (attempt cb (m - 1) s', state_before cb m s'))"
  proof (rule Suc.IH)
    show "i + 1 \<le> maxAttempts r" using lt by (rule uint_succ_le)
    show "m = unat (maxAttempts r - (i + 1))" using Suc.prems(2) lt by (simp add: uint_remaining_Suc)
    show "\<forall>j<m. retries r (attempt cb j s')"
    proof (intro allI impI)
      fix j assume "j < m"
      then have "retries r (attempt cb (Suc j) s)" using Suc.prems(3) by simp
      then show "retries r (attempt cb j s')" using c by (simp add: attempt_Suc)
    qed
  qed
  show ?case
  proof (cases m)
    case 0
    with step lt c out re show ?thesis by (simp add: attempt_0 retrier_loop_again)
  next
    case (Suc m')
    with step lt c out re show ?thesis by (simp add: attempt_Suc retrier_loop_again)
  qed
qed

lemma counted_apply: "counted cb (n, s) = (fst (cb s), (Suc n, snd (cb s)))"
  by (simp add: counted_def)

lemma state_before_counted: "state_before (counted cb) k (n, s) = (n + k, state_before cb k s)"
  by (induction k arbitrary: n s) (simp_all add: counted_apply)

lemma attempt_counted: "attempt (counted cb) k (n, s) = attempt cb k s"
  by (simp add: attempt_def state_before_counted counted_apply)

lemma retrier_loop_count:
  "fst (snd (retrier_loop r (counted cb) i err (n, s))) \<le> n + unat (maxAttempts r - i)"
proof (induction "unat (maxAttempts r - i)" arbitrary: i err n s)
  case 0
  then have "\<not> i < maxAttempts r" by unat_arith
  then show ?case by (simp add: retrier_loop_done)
next
  case (Suc m)
  show ?case
  proof (cases "i < maxAttempts r")
    case False
    then show ?thesis by (simp add: retrier_loop_done)
  next
    case True
    then have m: "m = unat (maxAttempts r - (i + 1))"
      using Suc.hyps(2) by (simp add: uint_remaining_Suc)
    have IH: "fst (snd (retrier_loop r (counted cb) (i + 1) e (Suc n, s'))) \<le> Suc n + m" for e s'
      using Suc.hyps(1)[OF m, of e "Suc n" s'] m by simp
    have c: "counted cb (n, s) = (fst (cb s), (Suc n, snd (cb s)))" by (rule counted_apply)
    show ?thesis
    proof (cases "fst (cb s)")
      case (Panic v)
      with True c Suc.hyps(2)[symmetric] show ?thesis by (simp add: retrier_loop_panic)
    next
      case (Return e)
      show ?thesis
      proof (cases "e = None \<or> \<not> isRetriable r e")
        case True
        with \<open>i < maxAttempts r\<close> c Return Suc.hyps(2)[symmetric] show ?thesis
          by (simp add: retrier_loop_return)
      next
        case False
        then obtain x where "e = Some x" "isRetriable r (Some x)" by auto
        with \<open>i < maxAttempts r\<close> c Return
        have "retrier_loop r (counted cb) i err (n, s) =
              retrier_loop r (counted cb) (i + 1) (Some x) (Suc n, snd (cb s))"
          by (simp add: retrier_loop_again)
        with IH[of "Some x" "snd (cb s)"] Suc.hyps(2) show ?thesis by simp
      qed
    qed
  qed
qed

text \<open>
  Claim C7. For a retrier with a non-nil handle, \<open>Run\<close> invokes the callback at most
  \<open>maxAttempts\<close> times. When the attempts before attempt \<open>k\<close> (counted from 0, so the
  \<open>k+1\<close>-th call) returned retriable errors and attempt \<open>k\<close> returns nil, \<open>Run\<close> returns nil
  after exactly \<open>k+1\<close> invocations; when attempt \<open>k\<close> returns an error that is not retriable,
  \<open>Run\<close> returns that error after exactly \<open>k+1\<close> invocations; and when all \<open>maxAttempts\<close>
  attempts return retriable errors, \<open>Run\<close> returns the last one after exactly \<open>maxAttempts\<close>
  invocations. The invocations are counted by \<open>counted\<close>.
\<close>

theorem C7_retrier_algorithm:
  "fst (snd (retrier_Run (Some r) (counted cb) (0, s))) \<le> unat (maxAttempts r)
   \<and> (\<forall>k < unat (maxAttempts r).
        (\<forall>j<k. retries r (attempt cb j s)) \<and> attempt cb k s = Return None \<longrightarrow>
        retrier_Run (Some r) (counted cb) (0, s) = (Return None, (Suc k, state_before cb (Suc k) s)))
   \<and> (\<forall>k < unat (maxAttempts r). \<forall>e.
        (\<forall>j<k. retries r (attempt cb j s)) \<and> attempt cb k s = Return (Some e)
          \<and> \<not> isRetriable r (Some e) \<longrightarrow>
        retrier_Run (Some r) (counted cb) (0, s) =
          (Return (Some e), (Suc k, state_before cb (Suc k) s)))
   \<and> (0 < unat (maxAttempts r) \<and> (\<forall>j < unat (maxAttempts r). retries r (attempt cb j s)) \<longrightarrow>
        retrier_Run (Some r) (counted cb) (0, s) =
          (attempt cb (unat (maxAttempts r) - 1) s,
           (unat (maxAttempts r), state_before cb (unat (maxAttempts r)) s)))"
proof (intro conjI allI impI)
  show "fst (snd (retrier_Run (Some r) (counted cb) (0, s))) \<le> unat (maxAttempts r)"
    using retrier_loop_count[of r cb 0 None 0 s] by (simp add: retrier_Run_def)
next
  fix k
  assume k: "k < unat (maxAttempts r)"
    and h: "(\<forall>j<k. retries r (attempt cb j s)) \<and> attempt cb k s = Return None"
  have "retrier_loop r (counted cb) 0 None (0, s) =
      (attempt (counted cb) k (0, s), state_before (counted cb) (Suc k) (0, s))"
    by (rule retrier_loop_stops) (use k h in \<open>simp_all add: attempt_counted\<close>)
  with h show "retrier_Run (Some r) (counted cb) (0, s) =
      (Return None, (Suc k, state_before cb (Suc k) s))"
    by (simp add: retrier_Run_def attempt_counted state_before_counted del: state_before.simps)
next
  fix k e
  assume k: "k < unat (maxAttempts r)"
    and h: "(\<forall>j<k. retries r (attempt cb j s)) \<and> attempt cb k s = Return (Some e)
          \<and> \<not> isRetriable r (Some e)"
  have "retrier_loop r (counted cb) 0 None (0, s) =
      (attempt (counted cb) k (0, s), state_before (counted cb) (Suc k) (0, s))"
    by (rule retrier_loop_stops) (use k h in \<open>simp_all add: attempt_counted\<close>)
  with h show "retrier_Run (Some r) (counted cb) (0, s) =
      (Return (Some e), (Suc k, state_before cb (Suc k) s))"
    by (simp add: retrier_Run_def attempt_counted state_before_counted del: state_before.simps)
next
  assume h: "0 < unat (maxAttempts r) \<and> (\<forall>j < unat (maxAttempts r). retries r (attempt cb j s))"
  have "retrier_loop r (counted cb) 0 None (0, s) =
      (if unat (maxAttempts r) = 0 then (Return None, (0, s))
       else (attempt (counted cb) (unat (maxAttempts r) - 1) (0, s),
             state_before (counted cb) (unat (maxAttempts r)) (0, s)))"
    by (rule retrier_loop_exhausts) (use h in \<open>simp_all add: attempt_counted\<close>)
  with h show "retrier_Run (Some r) (counted cb) (0, s) =
          (attempt cb (unat (maxAttempts r) - 1) s,
           (unat (maxAttempts r), state_before cb (unat (maxAttempts r)) s))"
    by (simp add: retrier_Run_def attempt_counted state_before_counted del: state_before.simps)
qed


theorem C7_retrier_algorithm_witness:
  "retrier_Run (Some retrier3) (counted flaky) (0, 0) = (Return (Some (Errorf ''perm err'')), (2, 2))
   \<and> fst (snd (retrier_Run (Some retrier3) (counted flaky) (0, 0))) \<le> 3"
proof -
  have m: "unat (maxAttempts retrier3) = 3"
    by (simp add: retrier3_def retrier_New_def)
  have a0: "attempt flaky 0 0 = Return (Some (Errorf ''oops''))"
    by (simp add: attempt_def flaky_def)
  have a1: "attempt flaky 1 0 = Return (Some (Errorf ''perm err''))"
    by (simp add: attempt_def flaky_def)
  have r0: "retries retrier3 (attempt flaky 0 0)"
    by (simp add: a0 retrier3_def retrier_New_def)
  have n1: "\<not> isRetriable retrier3 (Some (Errorf ''perm err''))"
    by (simp add: retrier3_def retrier_New_def)
  have s2: "state_before flaky (Suc 1) 0 = 2"
    by (simp add: flaky_def)
  note t = C7_retrier_algorithm[of retrier3 flaky 0]
  from t have "fst (snd (retrier_Run (Some retrier3) (counted flaky) (0, 0))) \<le> 3"
    by (simp add: m)
  moreover from t m r0 a1 n1
  have "retrier_Run (Some retrier3) (counted flaky) (0, 0) =
      (Return (Some (Errorf ''perm err'')), (Suc 1, state_before flaky (Suc 1) 0))"
    by (elim conjE allE[of _ 1] allE[of _ "Errorf ''perm err''"]) simp
  ultimately show ?thesis by (simp add: flaky_def)
qed

section \<open>The breaker: admission and accounting\<close>

lemma put_breaker_same: "put_breaker a (heap s a) s = s"
  by (simp add: put_breaker_def)

lemma heap_put_breaker: "heap (put_breaker a b s) = (heap s)(a := b)"
  by (simp add: put_breaker_def)

lemma world_put_breaker: "world (put_breaker a b s) = world s"
  by (simp add: put_breaker_def)

lemma canMakeHalfOpenRequest_eq:
  "canMakeHalfOpenRequest b =
     (requests b < maxRequests b,
      if requests b < maxRequests b then b\<lparr>requests := requests b + 1\<rparr> else b)"
  by (auto simp: canMakeHalfOpenRequest_def not_le)

lemma breaker_Run_open:
  "State_Status (state (heap s a)) (world s) = Open \<Longrightarrow>
   breaker_Run (Some a) cb s = (Return (Some ErrBreakerOpen), s)"
  by (simp add: breaker_Run_def Breaker_State_def)

lemma breaker_Run_saturated:
  "State_Status (state (heap s a)) (world s) = HalfOpen \<Longrightarrow>
   maxRequests (heap s a) \<le> requests (heap s a) \<Longrightarrow>
   breaker_Run (Some a) cb s = (Return (Some ErrBreakerOpen), s)"
  by (simp add: breaker_Run_def Breaker_State_def canMakeHalfOpenRequest_def put_breaker_same)

lemma breaker_Run_closed:
  "State_Status (state (heap s a)) (world s) = Closed \<Longrightarrow>
   breaker_Run (Some a) cb s =
     (Return (fst (safeRun cb s)),
      put_breaker a
        (handleError (heap (snd (safeRun cb s)) a) (state (heap s a)) (fst (safeRun cb s))
           (world (snd (safeRun cb s))))
        (snd (safeRun cb s)))"
  by (simp add: breaker_Run_def Breaker_State_def split_beta Let_def)

lemma breaker_Run_halfopen:
  "State_Status (state (heap s a)) (world s) = HalfOpen \<Longrightarrow>
   requests (heap s a) < maxRequests (heap s a) \<Longrightarrow>
   s0 = put_breaker a ((heap s a)\<lparr>requests := requests (heap s a) + 1\<rparr>) s \<Longrightarrow>
   breaker_Run (Some a) cb s =
     (Return (fst (safeRun cb s0)),
      put_breaker a
        (handleError (heap (snd (safeRun cb s0)) a) (state (heap s a)) (fst (safeRun cb s0))
           (world (snd (safeRun cb s0))))
        (snd (safeRun cb s0)))"
  by (simp add: breaker_Run_def Breaker_State_def split_beta Let_def canMakeHalfOpenRequest_eq)

text \<open>
  Claim C4. A call of \<open>Breaker.Run\<close> on a breaker whose observed status is \<open>Open\<close>, or
  \<open>HalfOpen\<close> with \<open>requests\<close> at \<open>maxRequests\<close> or above, returns \<open>ErrBreakerOpen\<close> and
  leaves the whole state as it was, whatever the callback is: the callback is not invoked,
  and the breaker's status, expiry, counters and \<open>requests\<close> are not written.
\<close>

theorem C4_rejection:
  assumes "State_Status (state (heap s a)) (world s) = Open
           \<or> (State_Status (state (heap s a)) (world s) = HalfOpen
               \<and> maxRequests (heap s a) \<le> requests (heap s a))"
  shows "breaker_Run (Some a) cb s = (Return (Some ErrBreakerOpen), s)"
  using assms by (auto simp: breaker_Run_open breaker_Run_saturated)

lemma State_Status_Closed: "State_Status st w = Closed \<longleftrightarrow> status st = Closed"
  by (simp add: State_Status_def)

lemma State_Status_Open: "State_Status st w = Open \<longleftrightarrow> status st = Open \<and> state_now st w < expiresAt st"
  by (auto simp: State_Status_def)

lemma setState_Open: "setState b Open w = opened b w"
  by (simp add: setState_def opened_def new_State_def Let_def)

lemma setState_Open_upd: "setState (b\<lparr>state := x\<rparr>) Open w = opened b w"
  by (simp add: setState_def opened_def new_State_def Let_def)

lemma setState_Closed_upd: "setState (b\<lparr>state := x\<rparr>) Closed w = closed_again b"
  by (simp add: setState_def closed_again_def new_State_def Let_def)

lemma handleError_closed_failure:
  assumes "status (state b) = Closed" and "err \<noteq> None" and "isFailure b err"
  shows "handleError b st err w =
     (if maxFailures b \<le> Failures (state b) + 1 then opened b w
      else b\<lparr>state := (state b)\<lparr>Failures := Failures (state b) + 1, Successes := 0\<rparr>\<rparr>)"
  using assms
  by (simp add: handleError_def State_Status_def shouldOpen_def failure_def setState_Open_upd)

lemma handleError_closed_other:
  assumes "status (state b) = Closed" and "\<not> (err \<noteq> None \<and> isFailure b err)"
  shows "handleError b st err w =
     (if status st = Closed \<and> Failures st = 0 then b
      else b\<lparr>state := (state b)\<lparr>Failures := 0\<rparr>\<rparr>)"
  using assms by (auto simp: handleError_def State_Status_def)

lemma handleError_halfopen_failure:
  assumes "State_Status (state b) w = HalfOpen" and "err \<noteq> None" and "isFailure b err"
  shows "handleError b st err w = opened b w"
  using assms by (simp add: handleError_def setState_Open)

lemma handleError_halfopen_other:
  assumes "State_Status (state b) w = HalfOpen" and "\<not> (err \<noteq> None \<and> isFailure b err)"
    and "\<not> (status st = Closed \<and> Failures st = 0)"
  shows "handleError b st err w =
     (if Successes (state b) + 1 = maxRequests b then closed_again b
      else b\<lparr>state := (state b)\<lparr>Successes := Successes (state b) + 1, Failures := 0\<rparr>\<rparr>)"
  using assms by (auto simp: handleError_def success_def setState_Closed_upd)

lemma handleError_skipped:
  assumes "status st = Closed" and "Failures st = 0" and "\<not> (err \<noteq> None \<and> isFailure b err)"
  shows "handleError b st err w = b"
  using assms by (auto simp: handleError_def)

lemma handleError_open:
  assumes "State_Status (state b) w = Open"
  shows "handleError b st err w = b"
  using assms by (simp add: handleError_def Let_def)

lemma safeRun_Return: "cb s = (Return err, s') \<Longrightarrow> safeRun cb s = (err, s')"
  by (simp add: safeRun_def)

lemma safeRun_Panic: "cb s = (Panic v, s') \<Longrightarrow> safeRun cb s = (Some (Errorf (fmt_v v)), s')"
  by (simp add: safeRun_def)

lemma breaker_Run_closed_frame:
  assumes "status (state (heap s a)) = Closed" and "cb s = (Return err, s')"
    and "heap s' a = heap s a"
  shows "breaker_Run (Some a) cb s =
     (Return err, put_breaker a (handleError (heap s a) (state (heap s a)) err (world s')) s')"
  using assms by (simp add: breaker_Run_closed State_Status_Closed safeRun_Return)

lemma default_breaker:
  "breaker_New [] =
     \<lparr>isFailure = defaultIsFailure, maxFailures = 5, maxRequests = 1, now = time_Now,
      timeout = 60000000000, requests = 0,
      state = \<lparr>status = Closed, expiresAt = 0, Failures = 0, Successes = 0, state_now = time_Now\<rparr>\<rparr>"
  by (simp add: breaker_New_def new_State_def defaultMaxFailures_def defaultMaxRequests_def
      defaultTimeout_def)

lemma failed_Suc: "failed (Suc k) = snd (breaker_Run (Some 0) oops_cb (failed k))"
  by (simp add: failed_def state_before_Suc del: state_before.simps)

lemma run_oops_streak:
  assumes h: "heap s 0 = streak n" and n4: "unat n < 4"
  shows "breaker_Run (Some 0) oops_cb s =
     (Return (Some (Errorf ''oops'')),
      put_breaker 0 (streak (n + 1)) (s\<lparr>world := (world s)\<lparr>vars := Suc (vars (world s))\<rparr>\<rparr>))"
proof -
  from n4 have n: "\<not> 5 \<le> n + 1" by unat_arith
  have c: "status (state (heap s 0)) = Closed"
    by (simp add: h streak_def default_breaker)
  have f: "isFailure (heap s 0) (Some (Errorf ''oops''))"
    by (simp add: h streak_def default_breaker defaultIsFailure_def)
  have o: "oops_cb s = (Return (Some (Errorf ''oops'')), s\<lparr>world := (world s)\<lparr>vars := Suc (vars (world s))\<rparr>\<rparr>)"
    by (simp add: oops_cb_def)
  have he: "handleError (heap s 0) (state (heap s 0)) (Some (Errorf ''oops'')) w = streak (n + 1)" for w
    using n by (subst handleError_closed_failure[OF c _ f]) (simp_all add: h streak_def default_breaker)
  have "breaker_Run (Some 0) oops_cb s =
     (Return (Some (Errorf ''oops'')),
      put_breaker 0 (handleError (heap s 0) (state (heap s 0)) (Some (Errorf ''oops''))
        (world (s\<lparr>world := (world s)\<lparr>vars := Suc (vars (world s))\<rparr>\<rparr>)))
        (s\<lparr>world := (world s)\<lparr>vars := Suc (vars (world s))\<rparr>\<rparr>))"
    using c o by (rule breaker_Run_closed_frame) simp
  then show ?thesis by (simp add: he)
qed

lemma failed_0: "heap (failed 0) 0 = streak 0 \<and> world (failed 0) = \<lparr>wall_clock = 0, vars = 0\<rparr>"
  by (simp add: failed_def fresh_def streak_def default_breaker)

lemma failed_step:
  assumes "heap (failed k) 0 = streak n \<and> world (failed k) = \<lparr>wall_clock = 0, vars = k\<rparr>"
    and "unat n < 4"
  shows "heap (failed (Suc k)) 0 = streak (n + 1)
         \<and> world (failed (Suc k)) = \<lparr>wall_clock = 0, vars = Suc k\<rparr>"
  using assms by (simp add: failed_Suc run_oops_streak put_breaker_def)

lemma failed_4: "heap (failed 4) 0 = streak 4 \<and> world (failed 4) = \<lparr>wall_clock = 0, vars = 4\<rparr>"
proof -
  have u: "unat (0::uint) < 4" "unat (1::uint) < 4" "unat (2::uint) < 4" "unat (3::uint) < 4"
    by simp_all
  have 1: "heap (failed 1) 0 = streak 1 \<and> world (failed 1) = \<lparr>wall_clock = 0, vars = 1\<rparr>"
    using failed_step[OF failed_0 u(1)] by simp
  have 2: "heap (failed 2) 0 = streak 2 \<and> world (failed 2) = \<lparr>wall_clock = 0, vars = 2\<rparr>"
    using failed_step[OF 1 u(2)] by (simp add: eval_nat_numeral)
  have 3: "heap (failed 3) 0 = streak 3 \<and> world (failed 3) = \<lparr>wall_clock = 0, vars = 3\<rparr>"
    using failed_step[OF 2 u(3)] by (simp add: eval_nat_numeral)
  show ?thesis
    using failed_step[OF 3 u(4)] by (simp add: eval_nat_numeral)
qed

lemma run_oops_trips:
  assumes h: "heap s 0 = streak 4"
  shows "breaker_Run (Some 0) oops_cb s =
     (Return (Some (Errorf ''oops'')),
      put_breaker 0 (tripped (wall_clock (world s) + 60000000000))
        (s\<lparr>world := (world s)\<lparr>vars := Suc (vars (world s))\<rparr>\<rparr>))"
proof -
  have c: "status (state (heap s 0)) = Closed"
    by (simp add: h streak_def default_breaker)
  have f: "isFailure (heap s 0) (Some (Errorf ''oops''))"
    by (simp add: h streak_def default_breaker defaultIsFailure_def)
  have o: "oops_cb s = (Return (Some (Errorf ''oops'')), s\<lparr>world := (world s)\<lparr>vars := Suc (vars (world s))\<rparr>\<rparr>)"
    by (simp add: oops_cb_def)
  have he: "handleError (heap s 0) (state (heap s 0)) (Some (Errorf ''oops'')) w
      = tripped (wall_clock w + 60000000000)" for w :: "nat world"
    by (subst handleError_closed_failure[OF c _ f])
       (simp_all add: h streak_def default_breaker opened_def tripped_def time_Now_def)
  have "breaker_Run (Some 0) oops_cb s =
     (Return (Some (Errorf ''oops'')),
      put_breaker 0 (handleError (heap s 0) (state (heap s 0)) (Some (Errorf ''oops''))
        (world (s\<lparr>world := (world s)\<lparr>vars := Suc (vars (world s))\<rparr>\<rparr>)))
        (s\<lparr>world := (world s)\<lparr>vars := Suc (vars (world s))\<rparr>\<rparr>))"
    using c o by (rule breaker_Run_closed_frame) simp
  then show ?thesis by (simp add: he)
qed

lemma failed_5:
  "heap (failed 5) 0 = tripped 60000000000 \<and> world (failed 5) = \<lparr>wall_clock = 0, vars = 5\<rparr>"
proof -
  have "failed 5 = snd (breaker_Run (Some 0) oops_cb (failed 4))"
    using failed_Suc[of 4] by simp
  then show ?thesis
    using failed_4 by (simp add: run_oops_trips put_breaker_def)
qed

lemma fifth_call: "fst (breaker_Run (Some 0) oops_cb (failed 4)) = Return (Some (Errorf ''oops''))"
  using failed_4 by (simp add: run_oops_trips)

lemma tripped_status:
  "State_Status (state (tripped t :: 'u Breaker)) w = (if wall_clock w < t then Open else HalfOpen)"
  by (simp add: tripped_def State_Status_def time_Now_def)

theorem C4_rejection_witness:
  "State_Status (state (heap (failed 5) 0)) (world (failed 5)) = Open
   \<and> breaker_Run (Some 0) oops_cb (failed 5) = (Return (Some ErrBreakerOpen), failed 5)
   \<and> vars (world (snd (breaker_Run (Some 0) oops_cb (failed 5)))) = 5"
proof -
  have o: "State_Status (state (heap (failed 5) 0)) (world (failed 5)) = Open"
    using failed_5 by (simp add: tripped_status)
  with C4_rejection[of "failed 5" 0 oops_cb] show ?thesis
    using failed_5 by simp
qed

lemma uint_room: "r < m \<Longrightarrow> unat (m - (r + 1)) = unat (m - r) - 1 \<and> 0 < unat (m - r)" for r m :: uint
  by unat_arith

lemma admissions_count:
  "requests b \<le> maxRequests b \<Longrightarrow>
   fst (admissions n b) = min n (unat (maxRequests b - requests b))"
proof (induction n arbitrary: b)
  case 0
  then show ?case by simp
next
  case (Suc n)
  show ?case
  proof (cases "requests b < maxRequests b")
    case True
    let ?b = "b\<lparr>requests := requests b + 1\<rparr>"
    from True have le: "requests ?b \<le> maxRequests ?b" by (simp add: uint_succ_le)
    from Suc.IH[OF le] True uint_room[OF True] show ?thesis
      by (auto simp: canMakeHalfOpenRequest_eq split_beta min_def)
  next
    case False
    with Suc.prems have eq: "requests b = maxRequests b" by simp
    from Suc.IH[OF Suc.prems] False eq show ?thesis
      by (simp add: canMakeHalfOpenRequest_eq)
  qed
qed

lemma requests_handleError:
  "requests (handleError b st err w) = requests b \<or> requests (handleError b st err w) = 0"
  by (simp add: handleError_def Let_def setState_def split: Status.split)

lemma maxRequests_handleError: "maxRequests (handleError b st err w) = maxRequests b"
  by (simp add: handleError_def Let_def setState_def split: Status.split)

text \<open>
  Claim C5. \<open>canMakeHalfOpenRequest\<close> admits exactly when \<open>requests\<close> is strictly below
  \<open>maxRequests\<close>, and increments \<open>requests\<close> in the same step. A call of \<open>Run\<close> observed
  \<open>HalfOpen\<close> runs the callback on the state with the counter incremented when the counter
  was below \<open>maxRequests\<close>, and returns \<open>ErrBreakerOpen\<close> with the state untouched when the
  counter had reached it. So of any number of admission attempts that follow a transition
  (which sets \<open>requests\<close> to 0) exactly the first \<open>maxRequests\<close> are admitted, and never more
  than \<open>maxRequests\<close> from any counter within its bound; the accounting of a call leaves the
  counter alone unless it makes a transition, which resets it.
\<close>

theorem C5_admission_cap:
  "canMakeHalfOpenRequest b =
     (requests b < maxRequests b,
      if requests b < maxRequests b then b\<lparr>requests := requests b + 1\<rparr> else b)
   \<and> (State_Status (state (heap s a)) (world s) = HalfOpen \<and> requests (heap s a) < maxRequests (heap s a) \<longrightarrow>
        breaker_Run (Some a) cb s =
          (let s0 = put_breaker a ((heap s a)\<lparr>requests := requests (heap s a) + 1\<rparr>) s;
               r = safeRun cb s0
           in (Return (fst r),
               put_breaker a (handleError (heap (snd r) a) (state (heap s a)) (fst r) (world (snd r)))
                 (snd r))))
   \<and> (State_Status (state (heap s a)) (world s) = HalfOpen \<and> maxRequests (heap s a) \<le> requests (heap s a) \<longrightarrow>
        breaker_Run (Some a) cb s = (Return (Some ErrBreakerOpen), s))
   \<and> (requests b = 0 \<longrightarrow> fst (admissions n b) = min n (unat (maxRequests b)))
   \<and> (requests b \<le> maxRequests b \<longrightarrow> fst (admissions n b) \<le> unat (maxRequests b))
   \<and> (requests (handleError b st err w) = requests b \<or> requests (handleError b st err w) = 0)"
proof (intro conjI impI)
  show "canMakeHalfOpenRequest b =
     (requests b < maxRequests b,
      if requests b < maxRequests b then b\<lparr>requests := requests b + 1\<rparr> else b)"
    by (rule canMakeHalfOpenRequest_eq)
next
  assume "State_Status (state (heap s a)) (world s) = HalfOpen \<and> requests (heap s a) < maxRequests (heap s a)"
  then show "breaker_Run (Some a) cb s =
          (let s0 = put_breaker a ((heap s a)\<lparr>requests := requests (heap s a) + 1\<rparr>) s;
               r = safeRun cb s0
           in (Return (fst r),
               put_breaker a (handleError (heap (snd r) a) (state (heap s a)) (fst r) (world (snd r)))
                 (snd r)))"
    by (simp add: breaker_Run_halfopen Let_def)
next
  assume "State_Status (state (heap s a)) (world s) = HalfOpen \<and> maxRequests (heap s a) \<le> requests (heap s a)"
  then show "breaker_Run (Some a) cb s = (Return (Some ErrBreakerOpen), s)"
    by (simp add: breaker_Run_saturated)
next
  assume "requests b = 0"
  then show "fst (admissions n b) = min n (unat (maxRequests b))"
    using admissions_count[of b n] by simp
next
  assume "requests b \<le> maxRequests b"
  then have "fst (admissions n b) = min n (unat (maxRequests b - requests b))"
    by (rule admissions_count)
  moreover have "unat (maxRequests b - requests b) \<le> unat (maxRequests b)"
    using \<open>requests b \<le> maxRequests b\<close> by unat_arith
  ultimately show "fst (admissions n b) \<le> unat (maxRequests b)" by simp
next
  show "requests (handleError b st err w) = requests b \<or> requests (handleError b st err w) = 0"
    by (rule requests_handleError)
qed


lemma half_open_state:
  "heap half_open 0 = tripped 60000000000
   \<and> world half_open = \<lparr>wall_clock = 60000000000, vars = 5\<rparr>"
  using failed_5 by (simp add: half_open_def sleep_def)

lemma half_open_observed: "State_Status (state (heap half_open 0)) (world half_open) = HalfOpen"
  by (simp add: half_open_state tripped_status)

lemma saturated_observed: "State_Status (state (heap saturated 0)) (world saturated) = HalfOpen"
  by (simp add: saturated_def put_breaker_def half_open_state tripped_def State_Status_def time_Now_def)

lemma tripped_fields:
  "requests (tripped t) = 0" "maxRequests (tripped t) = 1" "maxFailures (tripped t) = 5"
  "isFailure (tripped t) = defaultIsFailure" "now (tripped t) = time_Now"
  "timeout (tripped t) = 60000000000"
  "status (state (tripped t)) = Open" "expiresAt (state (tripped t)) = t"
  "Successes (state (tripped t)) = 0" "Failures (state (tripped t)) = 0"
  by (simp_all add: tripped_def default_breaker)

lemma probe_accounting:
  "handleError ((tripped 60000000000)\<lparr>requests := 1\<rparr>) (state (tripped 60000000000)) None
     \<lparr>wall_clock = 60000000000, vars = (n::nat)\<rparr> = streak 0"
proof -
  let ?b = "(tripped 60000000000 :: nat Breaker)\<lparr>requests := 1\<rparr>"
  let ?w = "\<lparr>wall_clock = 60000000000, vars = n\<rparr>"
  have h: "State_Status (state ?b) ?w = HalfOpen"
    by (simp add: tripped_def State_Status_def time_Now_def)
  have "handleError ?b (state (tripped 60000000000)) None ?w =
      (if Successes (state ?b) + 1 = maxRequests ?b then closed_again ?b
       else ?b\<lparr>state := (state ?b)\<lparr>Successes := Successes (state ?b) + 1, Failures := 0\<rparr>\<rparr>)"
    by (rule handleError_halfopen_other[OF h]) (simp_all add: tripped_fields)
  then show ?thesis
    by (simp add: tripped_fields) (simp add: closed_again_def tripped_def streak_def default_breaker)
qed

lemma probe_run:
  "breaker_Run (Some 0) fine_cb half_open =
     (Return None, put_breaker 0 (streak 0) (half_open\<lparr>world := \<lparr>wall_clock = 60000000000, vars = 6\<rparr>\<rparr>))"
proof -
  let ?s0 = "put_breaker 0 ((heap half_open 0)\<lparr>requests := requests (heap half_open 0) + 1\<rparr>) half_open"
  have lt: "requests (heap half_open 0) < maxRequests (heap half_open 0)"
    by (simp add: half_open_state tripped_fields)
  have sr: "safeRun fine_cb ?s0 = (None, ?s0\<lparr>world := \<lparr>wall_clock = 60000000000, vars = 6\<rparr>\<rparr>)"
    by (simp add: safeRun_def fine_cb_def put_breaker_def half_open_state)
  show ?thesis
    by (subst breaker_Run_halfopen[OF half_open_observed lt refl])
       (simp add: sr, simp add: put_breaker_def half_open_state tripped_fields probe_accounting)
qed

theorem C5_admission_cap_witness:
  "canMakeHalfOpenRequest (tripped 0 :: nat Breaker) = (True, (tripped 0)\<lparr>requests := 1\<rparr>)
   \<and> fst (admissions 3 (tripped 0 :: nat Breaker)) = 1
   \<and> State_Status (state (heap half_open 0)) (world half_open) = HalfOpen
   \<and> fst (breaker_Run (Some 0) fine_cb half_open) = Return None
   \<and> vars (world (snd (breaker_Run (Some 0) fine_cb half_open))) = 6
   \<and> State_Status (state (heap saturated 0)) (world saturated) = HalfOpen
   \<and> breaker_Run (Some 0) fine_cb saturated = (Return (Some ErrBreakerOpen), saturated)"
proof -
  note A = C5_admission_cap[where b = "tripped 0 :: nat Breaker" and s = half_open and a = 0
      and cb = fine_cb and n = 3]
  note B = C5_admission_cap[where b = "tripped 0 :: nat Breaker" and s = saturated and a = 0
      and cb = fine_cb and n = 3]
  have sat: "maxRequests (heap saturated 0) \<le> requests (heap saturated 0)"
    by (simp add: saturated_def put_breaker_def half_open_state tripped_fields)
  have lt: "requests (heap half_open 0) < maxRequests (heap half_open 0)"
    by (simp add: half_open_state tripped_fields)
  from A have 1: "canMakeHalfOpenRequest (tripped 0 :: nat Breaker) = (True, (tripped 0)\<lparr>requests := 1\<rparr>)"
    by (simp add: tripped_fields)
  from A have 2: "fst (admissions 3 (tripped 0 :: nat Breaker)) = 1"
    by (simp add: tripped_fields)
  from A half_open_observed lt
  have 3: "breaker_Run (Some 0) fine_cb half_open =
          (let s0 = put_breaker 0 ((heap half_open 0)\<lparr>requests := requests (heap half_open 0) + 1\<rparr>) half_open;
               r = safeRun fine_cb s0
           in (Return (fst r),
               put_breaker 0 (handleError (heap (snd r) 0) (state (heap half_open 0)) (fst r) (world (snd r)))
                 (snd r)))"
    by blast
  have 4: "fst (breaker_Run (Some 0) fine_cb half_open) = Return None
      \<and> vars (world (snd (breaker_Run (Some 0) fine_cb half_open))) = 6"
    unfolding 3 by (simp add: Let_def safeRun_def fine_cb_def put_breaker_def half_open_state)
  from B saturated_observed sat
  have 5: "breaker_Run (Some 0) fine_cb saturated = (Return (Some ErrBreakerOpen), saturated)"
    by blast
  from 1 2 4 5 half_open_observed saturated_observed show ?thesis by simp
qed

lemma breaker_Run_closed_heap:
  assumes "status (state (heap s a)) = Closed" and "safeRun cb s = (err, s1)"
  shows "fst (breaker_Run (Some a) cb s) = Return err"
    and "heap (snd (breaker_Run (Some a) cb s)) a = handleError (heap s1 a) (state (heap s a)) err (world s1)"
    and "snd (breaker_Run (Some a) cb s) = put_breaker a (heap (snd (breaker_Run (Some a) cb s)) a) s1"
  using assms by (simp_all add: breaker_Run_closed State_Status_Closed put_breaker_def)

lemma failed_3: "heap (failed 3) 0 = streak 3 \<and> world (failed 3) = \<lparr>wall_clock = 0, vars = 3\<rparr>"
proof -
  have u: "unat (0::uint) < 4" "unat (1::uint) < 4" "unat (2::uint) < 4"
    by simp_all
  have 1: "heap (failed 1) 0 = streak 1 \<and> world (failed 1) = \<lparr>wall_clock = 0, vars = 1\<rparr>"
    using failed_step[OF failed_0 u(1)] by simp
  have 2: "heap (failed 2) 0 = streak 2 \<and> world (failed 2) = \<lparr>wall_clock = 0, vars = 2\<rparr>"
    using failed_step[OF 1 u(2)] by (simp add: eval_nat_numeral)
  show ?thesis
    using failed_step[OF 2 u(3)] by (simp add: eval_nat_numeral)
qed

lemma streak_fields:
  "requests (streak n) = 0" "maxRequests (streak n) = 1" "maxFailures (streak n) = 5"
  "isFailure (streak n) = defaultIsFailure" "now (streak n) = time_Now"
  "timeout (streak n) = 60000000000"
  "status (state (streak n)) = Closed" "expiresAt (state (streak n)) = 0"
  "Successes (state (streak n)) = 0" "Failures (state (streak n)) = n"
  by (simp_all add: streak_def default_breaker)

lemma fresh_heap: "heap fresh a = streak 0"
  by (simp add: fresh_def streak_def default_breaker)

text \<open>
  Claim C1, as amended. A call of \<open>Run\<close> is admitted while the stored status is
  \<open>Closed\<close>; its callback (behind the recovery barrier) gives \<open>err\<close> and leaves the state
  \<open>s1\<close>, in which the breaker is still \<open>Closed\<close>. Then \<open>Run\<close> returns \<open>err\<close> itself. If
  \<open>err\<close> is not nil and \<open>isFailure err\<close> holds, the failure count is incremented and the
  successes are reset, and when the incremented count reaches \<open>maxFailures\<close> the breaker is
  opened instead: status \<open>Open\<close>, expiry at the clock's reading plus the timeout, counters
  and \<open>requests\<close> at 0. Otherwise (nil, or \<open>isFailure err\<close> false) the failure count is reset
  to 0, unless the snapshot taken at admission had no failures: then the accounting is
  skipped and the breaker stays as the callback left it; when nothing else wrote the
  breaker during the call the count is 0 after it in both cases. With the default options,
  four failures in a row leave the breaker \<open>Closed\<close> with the count 4, and the fifth call
  returns its own error and opens the breaker.
\<close>

theorem C1_closed_accounting:
  assumes "status (state (heap s a)) = Closed"
    and "safeRun cb s = (err, s1)"
    and "status (state (heap s1 a)) = Closed"
  shows "fst (breaker_Run (Some a) cb s) = Return err
    \<and> (err \<noteq> None \<and> isFailure (heap s1 a) err \<longrightarrow>
         heap (snd (breaker_Run (Some a) cb s)) a =
           (if maxFailures (heap s1 a) \<le> Failures (state (heap s1 a)) + 1
            then opened (heap s1 a) (world s1)
            else (heap s1 a)\<lparr>state := (state (heap s1 a))
                   \<lparr>Failures := Failures (state (heap s1 a)) + 1, Successes := 0\<rparr>\<rparr>))
    \<and> (\<not> (err \<noteq> None \<and> isFailure (heap s1 a) err) \<longrightarrow>
         heap (snd (breaker_Run (Some a) cb s)) a =
           (if Failures (state (heap s a)) = 0 then heap s1 a
            else (heap s1 a)\<lparr>state := (state (heap s1 a))\<lparr>Failures := 0\<rparr>\<rparr>))
    \<and> (\<not> (err \<noteq> None \<and> isFailure (heap s1 a) err) \<and> heap s1 a = heap s a \<longrightarrow>
         Failures (state (heap (snd (breaker_Run (Some a) cb s)) a)) = 0
         \<and> status (state (heap (snd (breaker_Run (Some a) cb s)) a)) = Closed)
    \<and> State_Status (state (heap (failed 4) 0)) (world (failed 4)) = Closed
    \<and> Failures (state (heap (failed 4) 0)) = 4
    \<and> breaker_Run (Some 0) oops_cb (failed 4) = (Return (Some (Errorf ''oops'')), failed 5)
    \<and> State_Status (state (heap (failed 5) 0)) (world (failed 5)) = Open
    \<and> expiresAt (state (heap (failed 5) 0)) = wall_clock (world (failed 5)) + 60000000000"
proof -
  note r = breaker_Run_closed_heap[OF assms(1,2)]
  have a: "fst (breaker_Run (Some a) cb s) = Return err" by (rule r(1))
  have b: "heap (snd (breaker_Run (Some a) cb s)) a =
           (if maxFailures (heap s1 a) \<le> Failures (state (heap s1 a)) + 1
            then opened (heap s1 a) (world s1)
            else (heap s1 a)\<lparr>state := (state (heap s1 a))
                   \<lparr>Failures := Failures (state (heap s1 a)) + 1, Successes := 0\<rparr>\<rparr>)"
    if "err \<noteq> None \<and> isFailure (heap s1 a) err"
    using that handleError_closed_failure[OF assms(3), of err "state (heap s a)" "world s1"]
    by (simp add: r(2))
  have c: "heap (snd (breaker_Run (Some a) cb s)) a =
           (if Failures (state (heap s a)) = 0 then heap s1 a
            else (heap s1 a)\<lparr>state := (state (heap s1 a))\<lparr>Failures := 0\<rparr>\<rparr>)"
    if "\<not> (err \<noteq> None \<and> isFailure (heap s1 a) err)"
    using that assms(1) handleError_closed_other[OF assms(3), of err "state (heap s a)" "world s1"]
    by (simp add: r(2))
  have d: "Failures (state (heap (snd (breaker_Run (Some a) cb s)) a)) = 0
         \<and> status (state (heap (snd (breaker_Run (Some a) cb s)) a)) = Closed"
    if "\<not> (err \<noteq> None \<and> isFailure (heap s1 a) err) \<and> heap s1 a = heap s a"
  proof -
    from that have eq: "heap s1 a = heap s a" by simp
    from that c have "heap (snd (breaker_Run (Some a) cb s)) a =
           (if Failures (state (heap s a)) = 0 then heap s1 a
            else (heap s1 a)\<lparr>state := (state (heap s1 a))\<lparr>Failures := 0\<rparr>\<rparr>)"
      by blast
    then show ?thesis using assms(1) by (simp add: eq)
  qed
  have e: "State_Status (state (heap (failed 4) 0)) (world (failed 4)) = Closed
    \<and> Failures (state (heap (failed 4) 0)) = 4"
    using failed_4 by (simp add: State_Status_Closed streak_fields)
  have f: "breaker_Run (Some 0) oops_cb (failed 4) = (Return (Some (Errorf ''oops'')), failed 5)"
    using fifth_call failed_Suc[of 4] by (simp add: prod_eq_iff)
  have g: "State_Status (state (heap (failed 5) 0)) (world (failed 5)) = Open
    \<and> expiresAt (state (heap (failed 5) 0)) = wall_clock (world (failed 5)) + 60000000000"
    using failed_5 by (simp add: tripped_status tripped_fields)
  from a b c d e f g show ?thesis by blast
qed

lemma oops_cb_safe:
  "safeRun oops_cb s = (Some (Errorf ''oops''), s\<lparr>world := (world s)\<lparr>vars := Suc (vars (world s))\<rparr>\<rparr>)"
  by (simp add: safeRun_def oops_cb_def)

lemma fine_cb_safe:
  "safeRun fine_cb s = (None, s\<lparr>world := (world s)\<lparr>vars := Suc (vars (world s))\<rparr>\<rparr>)"
  by (simp add: safeRun_def fine_cb_def)

lemma opened_streak: "opened (streak n) (w :: nat world) = tripped (wall_clock w + 60000000000)"
  by (simp add: opened_def streak_def tripped_def default_breaker time_Now_def)

theorem C1_closed_accounting_witness:
  "status (state (heap (failed 4) 0)) = Closed
   \<and> fst (breaker_Run (Some 0) oops_cb (failed 4)) = Return (Some (Errorf ''oops''))
   \<and> heap (snd (breaker_Run (Some 0) oops_cb (failed 4))) 0 = tripped 60000000000
   \<and> status (state (heap (failed 3) 0)) = Closed
   \<and> Failures (state (heap (failed 3) 0)) = 3
   \<and> fst (breaker_Run (Some 0) fine_cb (failed 3)) = Return None
   \<and> Failures (state (heap (snd (breaker_Run (Some 0) fine_cb (failed 3))) 0)) = 0"
proof -
  let ?s4 = "(failed 4)\<lparr>world := (world (failed 4))\<lparr>vars := Suc (vars (world (failed 4)))\<rparr>\<rparr>"
  let ?s3 = "(failed 3)\<lparr>world := (world (failed 3))\<lparr>vars := Suc (vars (world (failed 3)))\<rparr>\<rparr>"
  have c4: "status (state (heap (failed 4) 0)) = Closed"
    using failed_4 by (simp add: streak_fields)
  have c4': "status (state (heap ?s4 0)) = Closed"
    using failed_4 by (simp add: streak_fields)
  have c3: "status (state (heap (failed 3) 0)) = Closed" "Failures (state (heap (failed 3) 0)) = 3"
    using failed_3 by (simp_all add: streak_fields)
  have c3': "status (state (heap ?s3 0)) = Closed"
    using failed_3 by (simp add: streak_fields)
  note A = C1_closed_accounting[OF c4 oops_cb_safe c4']
  note B = C1_closed_accounting[OF c3(1) fine_cb_safe c3']
  have f4: "isFailure (heap ?s4 0) (Some (Errorf ''oops''))"
    using failed_4 by (simp add: streak_fields defaultIsFailure_def)
  from A have 1: "fst (breaker_Run (Some 0) oops_cb (failed 4)) = Return (Some (Errorf ''oops''))"
    by blast
  from A f4 have "heap (snd (breaker_Run (Some 0) oops_cb (failed 4))) 0 =
           (if maxFailures (heap ?s4 0) \<le> Failures (state (heap ?s4 0)) + 1
            then opened (heap ?s4 0) (world ?s4)
            else (heap ?s4 0)\<lparr>state := (state (heap ?s4 0))
                   \<lparr>Failures := Failures (state (heap ?s4 0)) + 1, Successes := 0\<rparr>\<rparr>)"
    by blast
  then have 2: "heap (snd (breaker_Run (Some 0) oops_cb (failed 4))) 0 = tripped 60000000000"
    using failed_4 by (simp add: streak_fields opened_streak)
  from B have 3: "fst (breaker_Run (Some 0) fine_cb (failed 3)) = Return None"
    by blast
  from B have "Failures (state (heap (snd (breaker_Run (Some 0) fine_cb (failed 3))) 0)) = 0"
    by simp
  with c4 c3 1 2 3 show ?thesis by simp
qed

lemma always_failing_heap:
  "heap always_failing a =
     \<lparr>isFailure = (\<lambda>err. True), maxFailures = 5, maxRequests = 1, now = time_Now,
      timeout = 60000000000, requests = 0,
      state = \<lparr>status = Closed, expiresAt = 0, Failures = 0, Successes = 0, state_now = time_Now\<rparr>\<rparr>"
  by (simp add: always_failing_def breaker_New_def new_State_def defaultMaxFailures_def
      defaultMaxRequests_def defaultTimeout_def)

text \<open>
  The claim as it was stated fails twice. With a predicate that accepts nil, a call that
  returns nil has \<open>isFailure err\<close> true and yet the count is not incremented: the source
  asks \<open>err != nil\<close> first. And a call admitted with no failures in its snapshot that
  returns nil leaves a streak of three, built up while it ran, in place.
\<close>

theorem C1_counterexample:
  "isFailure (heap always_failing 0) None
   \<and> State_Status (state (heap always_failing 0)) (world always_failing) = Closed
   \<and> fst (breaker_Run (Some 0) fine_cb always_failing) = Return None
   \<and> Failures (state (heap (snd (breaker_Run (Some 0) fine_cb always_failing)) 0))
       \<noteq> Failures (state (heap always_failing 0)) + 1
   \<and> State_Status (state (heap fresh 0)) (world fresh) = Closed
   \<and> fst (breaker_Run (Some 0) three_inside fresh) = Return None
   \<and> State_Status (state (heap (snd (breaker_Run (Some 0) three_inside fresh)) 0))
        (world (snd (breaker_Run (Some 0) three_inside fresh))) = Closed
   \<and> Failures (state (heap (snd (breaker_Run (Some 0) three_inside fresh)) 0)) = 3"
proof -
  have a: "status (state (heap always_failing 0)) = Closed"
    by (simp add: always_failing_heap)
  note ra = breaker_Run_closed_heap[OF a fine_cb_safe]
  have "heap (snd (breaker_Run (Some 0) fine_cb always_failing)) 0 = heap always_failing 0"
    by (simp add: ra(2) handleError_skipped always_failing_heap)
  then have 1: "Failures (state (heap (snd (breaker_Run (Some 0) fine_cb always_failing)) 0))
       \<noteq> Failures (state (heap always_failing 0)) + 1"
    by (simp add: always_failing_heap)
  have f: "status (state (heap fresh 0)) = Closed"
    by (simp add: fresh_heap streak_fields)
  have t: "safeRun three_inside fresh = (None, failed 3)"
    by (simp add: safeRun_def three_inside_def failed_def del: state_before.simps)
  note rf = breaker_Run_closed_heap[OF f t]
  have "heap (snd (breaker_Run (Some 0) three_inside fresh)) 0 = heap (failed 3) 0"
    by (simp add: rf(2) handleError_skipped fresh_heap streak_fields)
  then have 2: "heap (snd (breaker_Run (Some 0) three_inside fresh)) 0 = streak 3"
    using failed_3 by simp
  show ?thesis
    using 1 2 ra(1) rf(1) by (simp add: State_Status_Closed streak_fields always_failing_heap fresh_heap)
qed

lemma State_Status_eq:
  "State_Status st w =
     (if status st = Open \<and> expiresAt st \<le> state_now st w then HalfOpen else status st)"
  by (simp add: State_Status_def not_less)

lemma breaker_apply_state: "state (breaker_apply opt b) = state b"
  by (cases opt) simp_all

lemma stored_status_New: "status (state (breaker_New opts)) = Closed"
  by (simp add: breaker_New_def Let_def new_State_def)

lemma state_now_New: "state_now (state (breaker_New opts)) = now (breaker_New opts)"
  by (simp add: breaker_New_def Let_def new_State_def)

lemma setState_fields:
  "status (state (setState b st w)) = st" "state_now (state (setState b st w)) = now b"
  "now (setState b st w) = now b"
  by (simp_all add: setState_def Let_def new_State_def)

lemma handleError_invariant:
  assumes "status (state b) \<noteq> HalfOpen" and "state_now (state b) = now b"
  shows "status (state (handleError b st err w)) \<noteq> HalfOpen
    \<and> state_now (state (handleError b st err w)) = now (handleError b st err w)"
  using assms
  by (simp add: handleError_def Let_def setState_fields failure_def success_def split: Status.split)

lemma canMake_invariant:
  "state (snd (canMakeHalfOpenRequest b)) = state b \<and> now (snd (canMakeHalfOpenRequest b)) = now b"
  by (simp add: canMakeHalfOpenRequest_eq)

lemma reachable_invariant:
  "reachable b \<Longrightarrow> status (state b) \<noteq> HalfOpen \<and> state_now (state b) = now b"
proof (induction rule: reachable.induct)
  case (made opts)
  show ?case by (simp add: stored_status_New state_now_New)
next
  case (admitted b)
  then show ?case by (simp add: canMake_invariant)
next
  case (accounted b st err w)
  then show ?case by (simp add: handleError_invariant)
qed

lemma breaker_Run_halfopen_heap:
  assumes "State_Status (state (heap s a)) (world s) = HalfOpen"
    and "requests (heap s a) < maxRequests (heap s a)"
    and "safeRun cb (put_breaker a ((heap s a)\<lparr>requests := requests (heap s a) + 1\<rparr>) s) = (err, s1)"
  shows "fst (breaker_Run (Some a) cb s) = Return err"
    and "heap (snd (breaker_Run (Some a) cb s)) a = handleError (heap s1 a) (state (heap s a)) err (world s1)"
  using assms(3) by (simp_all add: breaker_Run_halfopen[OF assms(1,2) refl] put_breaker_def)

lemma State_Status_HalfOpen_not_Closed: "State_Status st w = HalfOpen \<Longrightarrow> status st \<noteq> Closed"
  by (auto simp: State_Status_def split: if_splits)

text \<open>
  Claim C3, as amended. The observed status is a function of the stored state and the
  clock's reading: \<open>HalfOpen\<close> when the stored status is \<open>Open\<close> and the expiry is not after
  the reading, the stored status otherwise; \<open>New\<close> and the locked sections of \<open>Run\<close> never
  store \<open>HalfOpen\<close>, so for a breaker they produce the observed status is \<open>HalfOpen\<close>
  exactly then. When the accounting of a call finds the breaker observed \<open>HalfOpen\<close>: a
  failure (an error that is not nil and that \<open>isFailure\<close> accepts) opens it again, with
  the expiry at the reading plus the timeout and the counters and \<open>requests\<close> at 0; a
  result that is no failure increments the successes, and when they reach \<open>maxRequests\<close>
  the breaker is closed; except that a call whose admission snapshot was \<open>Closed\<close> with no
  failures, and whose result is no failure, is not accounted at all. A call that was itself
  admitted as a half-open request is always accounted.
\<close>

theorem C3_halfopen_accounting:
  "State_Status st w =
     (if status st = Open \<and> expiresAt st \<le> state_now st w then HalfOpen else status st)
   \<and> (reachable b \<longrightarrow>
        status (state b) \<noteq> HalfOpen \<and> state_now (state b) = now b
        \<and> (State_Status (state b) w = HalfOpen
             \<longleftrightarrow> status (state b) = Open \<and> expiresAt (state b) \<le> now b w))
   \<and> (State_Status (state b) w = HalfOpen \<and> err \<noteq> None \<and> isFailure b err \<longrightarrow>
        handleError b st err w = opened b w)
   \<and> (State_Status (state b) w = HalfOpen \<and> \<not> (err \<noteq> None \<and> isFailure b err)
        \<and> \<not> (status st = Closed \<and> Failures st = 0) \<longrightarrow>
        handleError b st err w =
          (if Successes (state b) + 1 = maxRequests b then closed_again b
           else b\<lparr>state := (state b)\<lparr>Successes := Successes (state b) + 1, Failures := 0\<rparr>\<rparr>))
   \<and> (\<not> (err \<noteq> None \<and> isFailure b err) \<and> status st = Closed \<and> Failures st = 0 \<longrightarrow>
        handleError b st err w = b)
   \<and> (State_Status (state (heap s a)) (world s) = HalfOpen
        \<and> requests (heap s a) < maxRequests (heap s a)
        \<and> safeRun cb (put_breaker a ((heap s a)\<lparr>requests := requests (heap s a) + 1\<rparr>) s) = (err, s1)
        \<and> State_Status (state (heap s1 a)) (world s1) = HalfOpen \<longrightarrow>
        fst (breaker_Run (Some a) cb s) = Return err
        \<and> heap (snd (breaker_Run (Some a) cb s)) a =
            (if err \<noteq> None \<and> isFailure (heap s1 a) err then opened (heap s1 a) (world s1)
             else if Successes (state (heap s1 a)) + 1 = maxRequests (heap s1 a)
               then closed_again (heap s1 a)
               else (heap s1 a)\<lparr>state := (state (heap s1 a))
                      \<lparr>Successes := Successes (state (heap s1 a)) + 1, Failures := 0\<rparr>\<rparr>))"
proof (intro conjI impI)
  show "State_Status st w =
     (if status st = Open \<and> expiresAt st \<le> state_now st w then HalfOpen else status st)"
    by (rule State_Status_eq)
next
  assume r: "reachable b"
  from reachable_invariant[OF r] show "status (state b) \<noteq> HalfOpen" by simp
  from reachable_invariant[OF r] show "state_now (state b) = now b" by simp
  from reachable_invariant[OF r]
  show "State_Status (state b) w = HalfOpen
          \<longleftrightarrow> status (state b) = Open \<and> expiresAt (state b) \<le> now b w"
    by (auto simp: State_Status_eq)
next
  assume "State_Status (state b) w = HalfOpen \<and> err \<noteq> None \<and> isFailure b err"
  then show "handleError b st err w = opened b w"
    by (simp add: handleError_halfopen_failure)
next
  assume "State_Status (state b) w = HalfOpen \<and> \<not> (err \<noteq> None \<and> isFailure b err)
        \<and> \<not> (status st = Closed \<and> Failures st = 0)"
  then show "handleError b st err w =
          (if Successes (state b) + 1 = maxRequests b then closed_again b
           else b\<lparr>state := (state b)\<lparr>Successes := Successes (state b) + 1, Failures := 0\<rparr>\<rparr>)"
    by (intro handleError_halfopen_other) blast+
next
  assume "\<not> (err \<noteq> None \<and> isFailure b err) \<and> status st = Closed \<and> Failures st = 0"
  then show "handleError b st err w = b"
    by (intro handleError_skipped) blast+
next
  assume h: "State_Status (state (heap s a)) (world s) = HalfOpen
        \<and> requests (heap s a) < maxRequests (heap s a)
        \<and> safeRun cb (put_breaker a ((heap s a)\<lparr>requests := requests (heap s a) + 1\<rparr>) s) = (err, s1)
        \<and> State_Status (state (heap s1 a)) (world s1) = HalfOpen"
  then have h1: "State_Status (state (heap s a)) (world s) = HalfOpen"
    and h2: "requests (heap s a) < maxRequests (heap s a)"
    and h3: "safeRun cb (put_breaker a ((heap s a)\<lparr>requests := requests (heap s a) + 1\<rparr>) s) = (err, s1)"
    and h4: "State_Status (state (heap s1 a)) (world s1) = HalfOpen"
    by blast+
  note r = breaker_Run_halfopen_heap[OF h1 h2 h3]
  show "fst (breaker_Run (Some a) cb s) = Return err" by (rule r(1))
  have nc: "\<not> (status (state (heap s a)) = Closed \<and> Failures (state (heap s a)) = 0)"
    using State_Status_HalfOpen_not_Closed[OF h1] by simp
  show "heap (snd (breaker_Run (Some a) cb s)) a =
            (if err \<noteq> None \<and> isFailure (heap s1 a) err then opened (heap s1 a) (world s1)
             else if Successes (state (heap s1 a)) + 1 = maxRequests (heap s1 a)
               then closed_again (heap s1 a)
               else (heap s1 a)\<lparr>state := (state (heap s1 a))
                      \<lparr>Successes := Successes (state (heap s1 a)) + 1, Failures := 0\<rparr>\<rparr>)"
  proof (cases "err \<noteq> None \<and> isFailure (heap s1 a) err")
    case True
    then show ?thesis by (simp add: r(2) handleError_halfopen_failure[OF h4])
  next
    case False
    from handleError_halfopen_other[OF h4 False nc] False show ?thesis
      by (auto simp: r(2))
  qed
qed

lemma streak_Suc:
  "(streak n)\<lparr>state := (state (streak n))\<lparr>Failures := n + 1, Successes := 0\<rparr>\<rparr> = streak (n + 1)"
  by (simp add: streak_def default_breaker)

lemma opened_default: "opened (streak n) w = tripped (wall_clock w + 60000000000)"
  by (simp add: opened_def streak_def tripped_def default_breaker time_Now_def)

lemma opened_tripped: "opened (tripped t) w = tripped (wall_clock w + 60000000000)"
  by (simp add: opened_def tripped_def default_breaker time_Now_def)

lemma handleError_streak:
  fixes w :: "'u world"
  shows "handleError (streak n) (state (streak n :: 'u Breaker)) (Some (Errorf ''oops'')) w =
     (if 5 \<le> n + 1 then tripped (wall_clock w + 60000000000) else streak (n + 1))"
proof -
  let ?b = "streak n :: 'u Breaker"
  have "handleError ?b (state ?b) (Some (Errorf ''oops'')) w =
     (if maxFailures ?b \<le> Failures (state ?b) + 1 then opened ?b w
      else ?b\<lparr>state := (state ?b)\<lparr>Failures := Failures (state ?b) + 1, Successes := 0\<rparr>\<rparr>)"
    by (rule handleError_closed_failure) (simp_all add: streak_fields defaultIsFailure_def)
  then show ?thesis by (simp add: streak_fields streak_Suc opened_default)
qed

lemma reachable_tripped: "reachable (tripped t :: 'u Breaker)"
proof -
  have 0: "reachable (streak 0 :: 'u Breaker)"
    using reachable.made[of "[]"] by (simp add: streak_def default_breaker)
  have step: "reachable (handleError (streak n) (state (streak n :: 'u Breaker)) (Some (Errorf ''oops'')) w)"
    if "reachable (streak n :: 'u Breaker)" for n and w :: "'u world"
    using that by (rule reachable.accounted)
  have 1: "reachable (streak 1 :: 'u Breaker)" using step[OF 0] by (simp add: handleError_streak word_le_nat_alt)
  have 2: "reachable (streak 2 :: 'u Breaker)" using step[OF 1] by (simp add: handleError_streak)
  have 3: "reachable (streak 3 :: 'u Breaker)" using step[OF 2] by (simp add: handleError_streak)
  have 4: "reachable (streak 4 :: 'u Breaker)" using step[OF 3] by (simp add: handleError_streak)
  from step[OF 4, of "\<lparr>wall_clock = t - 60000000000, vars = undefined\<rparr>"]
  show ?thesis by (simp add: handleError_streak)
qed

theorem C3_halfopen_accounting_witness:
  "reachable (heap half_open 0)
   \<and> State_Status (state (heap half_open 0)) (world half_open) = HalfOpen
   \<and> status (state (heap half_open 0)) = Open
   \<and> expiresAt (state (heap half_open 0)) \<le> now (heap half_open 0) (world half_open)
   \<and> fst (breaker_Run (Some 0) fine_cb half_open) = Return None
   \<and> status (state (heap (snd (breaker_Run (Some 0) fine_cb half_open)) 0)) = Closed
   \<and> fst (breaker_Run (Some 0) oops_cb half_open) = Return (Some (Errorf ''oops''))
   \<and> heap (snd (breaker_Run (Some 0) oops_cb half_open)) 0 = tripped 120000000000"
proof -
  let ?s0 = "put_breaker 0 ((heap half_open 0)\<lparr>requests := requests (heap half_open 0) + 1\<rparr>) half_open"
  let ?s1 = "?s0\<lparr>world := (world ?s0)\<lparr>vars := Suc (vars (world ?s0))\<rparr>\<rparr>"
  have r: "reachable (heap half_open 0)"
    by (simp add: half_open_state reachable_tripped)
  have lt: "requests (heap half_open 0) < maxRequests (heap half_open 0)"
    by (simp add: half_open_state tripped_fields)
  have h1: "State_Status (state (heap ?s1 0)) (world ?s1) = HalfOpen"
    by (simp add: put_breaker_def half_open_state tripped_def State_Status_def time_Now_def)
  note A = C3_halfopen_accounting[where b = "heap half_open 0" and w = "world half_open"
      and s = half_open and a = 0 and cb = fine_cb and err = None and ?s1.0 = ?s1]
  note B = C3_halfopen_accounting[where b = "heap half_open 0" and w = "world half_open"
      and s = half_open and a = 0 and cb = oops_cb and err = "Some (Errorf ''oops'')" and ?s1.0 = ?s1]
  from A r have 1: "State_Status (state (heap half_open 0)) (world half_open) = HalfOpen
      \<longleftrightarrow> status (state (heap half_open 0)) = Open
          \<and> expiresAt (state (heap half_open 0)) \<le> now (heap half_open 0) (world half_open)"
    by blast
  from A half_open_observed lt fine_cb_safe[of ?s0] h1
  have 2: "fst (breaker_Run (Some 0) fine_cb half_open) = Return None
        \<and> heap (snd (breaker_Run (Some 0) fine_cb half_open)) 0 =
            (if None \<noteq> (None :: error option) \<and> isFailure (heap ?s1 0) None then opened (heap ?s1 0) (world ?s1)
             else if Successes (state (heap ?s1 0)) + 1 = maxRequests (heap ?s1 0)
               then closed_again (heap ?s1 0)
               else (heap ?s1 0)\<lparr>state := (state (heap ?s1 0))
                      \<lparr>Successes := Successes (state (heap ?s1 0)) + 1, Failures := 0\<rparr>\<rparr>)"
    by blast
  from B half_open_observed lt oops_cb_safe[of ?s0] h1
  have 3: "fst (breaker_Run (Some 0) oops_cb half_open) = Return (Some (Errorf ''oops''))
        \<and> heap (snd (breaker_Run (Some 0) oops_cb half_open)) 0 =
            (if Some (Errorf ''oops'') \<noteq> None \<and> isFailure (heap ?s1 0) (Some (Errorf ''oops''))
             then opened (heap ?s1 0) (world ?s1)
             else if Successes (state (heap ?s1 0)) + 1 = maxRequests (heap ?s1 0)
               then closed_again (heap ?s1 0)
               else (heap ?s1 0)\<lparr>state := (state (heap ?s1 0))
                      \<lparr>Successes := Successes (state (heap ?s1 0)) + 1, Failures := 0\<rparr>\<rparr>)"
    by blast
  have 4: "status (state (heap (snd (breaker_Run (Some 0) fine_cb half_open)) 0)) = Closed"
    using 2 by (simp add: put_breaker_def half_open_state tripped_fields closed_again_def)
  have 5: "heap (snd (breaker_Run (Some 0) oops_cb half_open)) 0 = tripped 120000000000"
    using 3
    by (simp add: put_breaker_def half_open_state tripped_fields defaultIsFailure_def)
       (simp add: opened_def tripped_def default_breaker time_Now_def)
  from r 1 2 3 4 5 half_open_observed show ?thesis by simp
qed

text \<open>
  The claim as it was stated fails for a call admitted while the breaker was \<open>Closed\<close>
  that returns nil while the breaker is observed \<open>HalfOpen\<close>: with \<open>maxRequests = 1\<close> its
  success should close the breaker, and the early exit of \<open>handleError\<close> leaves the breaker
  as it was, with no success counted.
\<close>

theorem C3_counterexample:
  "State_Status (state (heap fresh 0)) (world fresh) = Closed
   \<and> safeRun trip_inside fresh = (None, half_open)
   \<and> State_Status (state (heap half_open 0)) (world half_open) = HalfOpen
   \<and> maxRequests (heap half_open 0) = 1
   \<and> Successes (state (heap half_open 0)) = 0
   \<and> breaker_Run (Some 0) trip_inside fresh = (Return None, half_open)
   \<and> State_Status (state (heap (snd (breaker_Run (Some 0) trip_inside fresh)) 0))
        (world (snd (breaker_Run (Some 0) trip_inside fresh))) \<noteq> Closed"
proof -
  have f: "status (state (heap fresh 0)) = Closed"
    by (simp add: fresh_heap streak_fields)
  have t: "safeRun trip_inside fresh = (None, half_open)"
    by (simp add: safeRun_def trip_inside_def failed_def half_open_def del: state_before.simps)
  note r = breaker_Run_closed_heap[OF f t]
  have h: "heap (snd (breaker_Run (Some 0) trip_inside fresh)) 0 = heap half_open 0"
    by (simp add: r(2) handleError_skipped fresh_heap streak_fields)
  have "snd (breaker_Run (Some 0) trip_inside fresh) = half_open"
    using r(3) by (simp add: h put_breaker_same)
  with r(1) have run: "breaker_Run (Some 0) trip_inside fresh = (Return None, half_open)"
    by (simp add: prod_eq_iff)
  show ?thesis
    using f t run half_open_observed
    by (simp add: State_Status_Closed half_open_state tripped_fields)
qed

section \<open>Panics, the caller and the daemon\<close>

lemma safeRun_recovered: "safeRun (recovered cb) = safeRun cb"
  by (rule ext) (simp add: safeRun_def recovered_def split: prod.split outcome.split)

lemma breaker_Run_recovered: "breaker_Run (Some a) (recovered cb) s = breaker_Run (Some a) cb s"
  unfolding breaker_Run_def safeRun_recovered by simp

lemma breaker_Run_returns: "\<exists>err. fst (breaker_Run (Some a) cb s) = Return err"
  by (simp add: breaker_Run_def Let_def split_beta)

lemma daemon_Call_returns: "\<exists>err. fst (daemon_Call (Some d) first k cb s) = Return err"
  by (simp add: daemon_Call_def Let_def split_beta)

lemma daemon_Call_panic:
  "caller_Call (lookup_caller d k) first cb s = (Panic v, s1) \<Longrightarrow>
   fst (daemon_Call (Some d) first k cb s) = Return (Some (Errorf (fmt_v v)))"
  by (simp add: daemon_Call_def Let_def)

lemma retrier_Run_panic:
  "cb s = (Panic v, s1) \<Longrightarrow> 0 < maxAttempts r \<Longrightarrow> retrier_Run (Some r) cb s = (Panic v, s1)"
  by (simp add: retrier_Run_def retrier_loop_panic)

text \<open>
  Claim C2, as amended. Three places hold a recovery barrier. A breaker with a non-nil
  handle runs every callback as if a panic with the value \<open>v\<close> were the returned error
  \<open>fmt.Errorf("%v", v)\<close>, so \<open>Breaker.Run\<close> never panics, and an admitted call that panics
  returns the error whose message is the \<open>%v\<close> form of \<open>v\<close>. The goroutine of a timer with a
  positive duration recovers, and \<open>Timer.Run\<close> returns that error when the callback ends
  before the timer fires. A daemon with a non-nil handle never panics and turns a panic
  that leaves the caller into that error. Everything else calls the callback in place and
  lets the panic through: the retrier, a nil retrier, timer, breaker or daemon, a timer
  whose duration is not positive, and the fallback's own operation.
\<close>

theorem C2_panic_barriers:
  fixes cb :: "'u store op"
  shows
  "breaker_Run (Some a) cb s = breaker_Run (Some a) (recovered cb) s
   \<and> (\<exists>err. fst (breaker_Run (Some a) cb s) = Return err)
   \<and> (\<exists>err. fst (daemon_Call (Some d) first k cb s) = Return err)
   \<and> (caller_Call (lookup_caller d k) first cb s = (Panic v, s1) \<longrightarrow>
        fst (daemon_Call (Some d) first k cb s) = Return (Some (Errorf (fmt_v v))))
   \<and> (cb s = (Panic v, s1) \<longrightarrow>
        message (Errorf (fmt_v v)) = fmt_v v
        \<and> safeRun cb s = (Some (Errorf (fmt_v v)), s1)
        \<and> (State_Status (state (heap s a)) (world s) = Closed \<longrightarrow>
             fst (breaker_Run (Some a) cb s) = Return (Some (Errorf (fmt_v v))))
        \<and> (0 < duration t \<longrightarrow>
             timer_Run (Some t) DoneFirst cb s = (Return (Some (Errorf (fmt_v v))), s1))
        \<and> (0 < maxAttempts r \<longrightarrow> retrier_Run (Some r) cb s = (Panic v, s1))
        \<and> retrier_Run None cb s = (Panic v, s1)
        \<and> timer_Run None first cb s = (Panic v, s1)
        \<and> (duration t \<le> 0 \<longrightarrow> timer_Run (Some t) first cb s = (Panic v, s1))
        \<and> breaker_Run None cb s = (Panic v, s1)
        \<and> fst (daemon_Call None first k cb s) = Panic v
        \<and> fallback_Call (Some \<lparr>useFallback = p, call = cb\<rparr>) s = (Panic v, s1))"
proof (intro conjI impI)
  show "breaker_Run (Some a) cb s = breaker_Run (Some a) (recovered cb) s"
    by (simp add: breaker_Run_recovered)
  show "\<exists>err. fst (breaker_Run (Some a) cb s) = Return err"
    by (rule breaker_Run_returns)
  show "\<exists>err. fst (daemon_Call (Some d) first k cb s) = Return err"
    by (rule daemon_Call_returns)
next
  assume "caller_Call (lookup_caller d k) first cb s = (Panic v, s1)"
  then show "fst (daemon_Call (Some d) first k cb s) = Return (Some (Errorf (fmt_v v)))"
    by (rule daemon_Call_panic)
next
  assume p: "cb s = (Panic v, s1)"
  show "message (Errorf (fmt_v v)) = fmt_v v" by simp
  show "safeRun cb s = (Some (Errorf (fmt_v v)), s1)" using p by (rule safeRun_Panic)
  show "retrier_Run None cb s = (Panic v, s1)" using p by (simp add: retrier_Run_def)
  show "timer_Run None first cb s = (Panic v, s1)" using p by (simp add: timer_Run_def)
  show "breaker_Run None cb s = (Panic v, s1)" using p by (simp add: breaker_Run_def)
  show "fst (daemon_Call None first k cb s) = Panic v" using p by (simp add: daemon_Call_def)
  show "fallback_Call (Some \<lparr>useFallback = p, call = cb\<rparr>) s = (Panic v, s1)"
    using p by (simp add: fallback_Call_def)
  {
    assume "State_Status (state (heap s a)) (world s) = Closed"
    then show "fst (breaker_Run (Some a) cb s) = Return (Some (Errorf (fmt_v v)))"
      using p by (simp add: breaker_Run_closed safeRun_Panic)
  }
  {
    assume "0 < duration t"
    then show "timer_Run (Some t) DoneFirst cb s = (Return (Some (Errorf (fmt_v v))), s1)"
      using p by (simp add: timer_Run_def)
  }
  {
    assume "0 < maxAttempts r"
    with p show "retrier_Run (Some r) cb s = (Panic v, s1)" by (rule retrier_Run_panic)
  }
  {
    assume "duration t \<le> 0"
    then show "timer_Run (Some t) first cb s = (Panic v, s1)"
      using p by (simp add: timer_Run_def)
  }
qed

lemma caller_Call_absent:
  assumes "timer c = None" and "breaker c = None" and "retrier c = None" and "fallback c = None"
  shows "caller_Call c first cb s = cb s"
proof -
  obtain out s1 where c: "cb s = (out, s1)" by (cases "cb s")
  with assms show ?thesis
    by (cases out)
       (simp_all add: caller_Call_def timer_Run_def breaker_Run_def retrier_Run_def UseFallback_def)
qed

lemma caller_Call_zero: "caller_Call zero_Caller first cb s = cb s"
  by (rule caller_Call_absent) (simp_all add: zero_Caller_def)

lemma registry_NewD: "registry (NewD opts) k = None"
proof -
  have "registry (foldl (\<lambda>d opt. daemon_apply opt d) d0 opts) = registry d0" for d0 :: "'a Daemon"
  proof (induction opts arbitrary: d0)
    case Nil
    show ?case by simp
  next
    case (Cons opt opts)
    show ?case by (cases opt) (simp_all add: Cons.IH)
  qed
  then show ?thesis by (simp add: NewD_def)
qed

lemma lookup_caller_NewD: "lookup_caller (NewD opts) k = zero_Caller"
  by (simp add: lookup_caller_def registry_NewD)

theorem C2_panic_barriers_witness:
  "fst (panic_cb fresh) = Panic (PString ''oops'')
   \<and> State_Status (state (heap fresh 0)) (world fresh) = Closed
   \<and> fst (breaker_Run (Some 0) panic_cb fresh) = Return (Some (Errorf ''oops''))
   \<and> 0 < duration (timer_New 50000000)
   \<and> fst (timer_Run (Some (timer_New 50000000)) DoneFirst panic_cb fresh) = Return (Some (Errorf ''oops''))
   \<and> fst (daemon_Call (Some (NewD [])) DoneFirst ''mysql:users.GetUser'' panic_cb fresh)
        = Return (Some (Errorf ''oops''))
   \<and> message (Errorf ''oops'') = ''oops''"
proof -
  let ?s1 = "fresh\<lparr>world := (world fresh)\<lparr>vars := Suc (vars (world fresh))\<rparr>\<rparr>"
  have p: "panic_cb fresh = (Panic (PString ''oops''), ?s1)"
    by (simp add: panic_cb_def)
  have c: "State_Status (state (heap fresh 0)) (world fresh) = Closed"
    by (simp add: State_Status_Closed fresh_heap streak_fields)
  have t: "0 < duration (timer_New 50000000)"
    by (simp add: timer_New_def)
  have d: "caller_Call (lookup_caller (NewD []) ''mysql:users.GetUser'') DoneFirst panic_cb fresh
      = (Panic (PString ''oops''), ?s1)"
    by (simp add: lookup_caller_NewD caller_Call_zero p)
  note A = C2_panic_barriers[where cb = panic_cb and s = fresh and a = 0 and v = "PString ''oops''"
      and ?s1.0 = ?s1 and t = "timer_New 50000000" and d = "NewD []" and first = DoneFirst
      and k = "''mysql:users.GetUser''"]
  from A p c have 1: "fst (breaker_Run (Some 0) panic_cb fresh) = Return (Some (Errorf (fmt_v (PString ''oops''))))"
    by blast
  from A p t have 2: "timer_Run (Some (timer_New 50000000)) DoneFirst panic_cb fresh
      = (Return (Some (Errorf (fmt_v (PString ''oops'')))), ?s1)"
    by blast
  from A d have 3: "fst (daemon_Call (Some (NewD [])) DoneFirst ''mysql:users.GetUser'' panic_cb fresh)
        = Return (Some (Errorf (fmt_v (PString ''oops''))))"
    by blast
  from p c t 1 2 3 show ?thesis by simp
qed

text \<open>
  The claim as it was stated fails for the retrier, for the timer's synchronous path and
  for the fallback: a panic of the operation leaves each of them as a panic.
\<close>

theorem C2_counterexample:
  "fst (retrier_Run (Some (retrier_New [])) panic_cb fresh) = Panic (PString ''oops'')
   \<and> fst (timer_Run None DoneFirst panic_cb fresh) = Panic (PString ''oops'')
   \<and> fst (timer_Run (Some (timer_New 0)) DoneFirst panic_cb fresh) = Panic (PString ''oops'')
   \<and> fst (fallback_Call (Some (fallback_New (Some panic_cb) [])) fresh) = Panic (PString ''oops'')"
proof -
  have m: "0 < maxAttempts (retrier_New [])"
    by (simp add: retrier_New_def defaultMaxAttempts_def)
  have "fst (retrier_Run (Some (retrier_New [])) panic_cb fresh) = Panic (PString ''oops'')"
    using retrier_Run_panic[OF _ m, of panic_cb fresh] by (simp add: panic_cb_def)
  then show ?thesis
    by (simp add: timer_Run_def timer_New_def fallback_Call_def fallback_New_def panic_cb_def)
qed














lemma daemon_Call_unregistered:
  assumes "registry d k = None"
  shows "daemon_Call (Some d) first k cb s =
     (Return (case fst (cb s) of Return e \<Rightarrow> e | Panic v \<Rightarrow> Some (Errorf (fmt_v v))),
      snd (cb s),
      if enabled d
      then Some \<lparr>Dependency = '''',
                 Duration = time_Now (world (snd (cb s))) - time_Now (world s),
                 Error = (case fst (cb s) of Return e \<Rightarrow> e | Panic v \<Rightarrow> Some (Errorf (fmt_v v))),
                 Name = '''', StartedAt = time_Now (world s)\<rparr>
      else None)"
proof -
  have l: "lookup_caller d k = zero_Caller"
    using assms by (simp add: lookup_caller_def)
  have z: "dependency (zero_Caller :: 'a Caller) = [] \<and> name (zero_Caller :: 'a Caller) = []"
    by (simp add: zero_Caller_def)
  show ?thesis
    by (simp add: daemon_Call_def l caller_Call_zero Let_def split_beta z)
qed

text \<open>
  Claim C10. For a key that was never registered, \<open>Daemon.Call\<close> on a non-nil daemon looks
  up the zero \<open>Caller\<close>, whose four primitives are absent, so the callback runs once, in
  place: the state after the call is the state the callback leaves, the result is the
  callback's result, or the error made of its panic, and the record sent on the channel
  (when the daemon is enabled) has the empty string as dependency and as name.
\<close>

theorem C10_unregistered_key:
  assumes "registry d k = None"
  shows "lookup_caller d k = zero_Caller
    \<and> timer (lookup_caller d k) = None \<and> breaker (lookup_caller d k) = None
    \<and> retrier (lookup_caller d k) = None \<and> fallback (lookup_caller d k) = None
    \<and> caller_Call (lookup_caller d k) first cb s = cb s
    \<and> daemon_Call (Some d) first k cb s =
       (Return (case fst (cb s) of Return e \<Rightarrow> e | Panic v \<Rightarrow> Some (Errorf (fmt_v v))),
        snd (cb s),
        if enabled d
        then Some \<lparr>Dependency = '''',
                   Duration = time_Now (world (snd (cb s))) - time_Now (world s),
                   Error = (case fst (cb s) of Return e \<Rightarrow> e | Panic v \<Rightarrow> Some (Errorf (fmt_v v))),
                   Name = '''', StartedAt = time_Now (world s)\<rparr>
        else None)"
proof -
  have l: "lookup_caller d k = zero_Caller"
    using assms by (simp add: lookup_caller_def)
  show ?thesis
    using daemon_Call_unregistered[OF assms, of first cb s]
    by (simp add: l caller_Call_zero) (simp add: zero_Caller_def)
qed

theorem C10_unregistered_key_witness:
  "registry local_daemon ''mysql:users.GetUser'' = None
   \<and> enabled local_daemon
   \<and> daemon_Call (Some local_daemon) DoneFirst ''mysql:users.GetUser'' panic_cb fresh =
       (Return (Some (Errorf ''oops'')),
        fresh\<lparr>world := \<lparr>wall_clock = 0, vars = 1\<rparr>\<rparr>,
        Some \<lparr>Dependency = '''', Duration = 0, Error = Some (Errorf ''oops''), Name = '''',
              StartedAt = 0\<rparr>)"
proof -
  have r: "registry local_daemon ''mysql:users.GetUser'' = None"
    by (simp add: local_daemon_def registry_NewD)
  have e: "enabled local_daemon"
    by (simp add: local_daemon_def NewD_def enabled_def)
  from C10_unregistered_key[OF r, of DoneFirst panic_cb fresh] e r show ?thesis
    by (simp add: panic_cb_def fresh_def time_Now_def)
qed

lemma callCh_NewD: "callCh (NewD opts) = make_chan 0"
proof -
  have "callCh (foldl (\<lambda>d opt. daemon_apply opt d) d0 opts) = callCh d0" for d0 :: "'a Daemon"
  proof (induction opts arbitrary: d0)
    case Nil
    show ?case by simp
  next
    case (Cons opt opts)
    show ?case by (cases opt) (simp_all add: Cons.IH)
  qed
  then show ?thesis by (simp add: NewD_def)
qed

text \<open>
  Claim C8, as amended. For every list of options \<open>NewD\<close> makes the channel with
  \<open>make(chan errcatapi.Call)\<close>: its capacity is 0 and nothing is pending in it, so a send
  on it blocks exactly when no receiver waits, that is until the worker takes the record.
  The constant 100 (\<open>bufferSize\<close>) is the length at which the worker flushes its batch.
  Neither \<open>safeClient\<close> nor \<open>send\<close> replaces the channel.
\<close>

theorem C8_channel_unbuffered:
  fixes d :: "'u Daemon"
  shows "capacity (callCh (NewD opts :: 'u Daemon)) = 0
   \<and> pending (callCh (NewD opts :: 'u Daemon)) = []
   \<and> send_blocks (callCh (NewD opts :: 'u Daemon)) receiver_waits = (\<not> receiver_waits)
   \<and> bufferSize = 100
   \<and> callCh (snd (safeClient dial d)) = callCh d
   \<and> callCh (fst (send dial d calls tx)) = callCh d"
  by (auto simp: callCh_NewD make_chan_def send_blocks_def bufferSize_def safeClient_def send_def
      split: option.split prod.split)

theorem C8_channel_unbuffered_witness:
  "capacity (callCh local_daemon) = 0
   \<and> send_blocks (callCh local_daemon) False
   \<and> \<not> send_blocks (callCh local_daemon) True"
  using C8_channel_unbuffered[where opts = "[WithServerAddr \<lparr>Host = ''localhost:8000''\<rparr>, WithEnvironment ''dev'']"
      and receiver_waits = False and d = local_daemon]
    C8_channel_unbuffered[where opts = "[WithServerAddr \<lparr>Host = ''localhost:8000''\<rparr>, WithEnvironment ''dev'']"
      and receiver_waits = True and d = local_daemon]
  by (simp add: local_daemon_def)

text \<open>
  The claim as it was stated fails on the daemon that \<open>NewD()\<close> makes: the capacity is not
  100, and a send blocks with nothing pending, not with 100 records pending.
\<close>

theorem C8_counterexample:
  "capacity (callCh (NewD [] :: unit Daemon)) \<noteq> 100
   \<and> pending (callCh (NewD [] :: unit Daemon)) = []
   \<and> send_blocks (callCh (NewD [] :: unit Daemon)) False"
  by (simp add: NewD_def make_chan_def send_blocks_def)

lemma send_empty: "send dial d [] tx = (d, tx)"
  by (simp add: send_def)

lemma RecordCalls_empty:
  "client_RecordCalls c \<lparr>Calls = [], Environment = e, Service = sv\<rparr> tx = (None, tx)"
  by (simp add: client_RecordCalls_def split: option.split)

lemma send_with_client:
  assumes "client d = Some c"
  shows "send dial d calls tx =
     (d, if calls = [] then tx
         else tx @ [\<lparr>Calls = calls, Environment = env d, Service = service d\<rparr>])"
  using assms by (simp add: send_def safeClient_def client_RecordCalls_def)

lemma consume_loop_conserves:
  assumes "client d = Some c"
    and "consume_loop dial d calls evs tx = (st, d', calls', tx')"
  shows "d' = d
    \<and> concat (map Calls tx') @ (if st = Waiting then calls' else [])
        = concat (map Calls tx) @ calls @ received evs"
  using assms(2)
proof (induction evs arbitrary: calls tx)
  case Nil
  then show ?case by auto
next
  case (Cons ev evs)
  show ?case
  proof (cases ev)
    case (Received x)
    show ?thesis
    proof (cases "length (calls @ [x]) = bufferSize")
      case True
      with Cons.prems Received
      have "consume_loop dial d [] evs
              (tx @ [\<lparr>Calls = calls @ [x], Environment = env d, Service = service d\<rparr>])
            = (st, d', calls', tx')"
        by (simp add: send_with_client[OF assms(1)])
      from Cons.IH[OF this] Received show ?thesis by simp
    next
      case False
      with Cons.prems Received
      have "consume_loop dial d (calls @ [x]) evs tx = (st, d', calls', tx')"
        by simp
      from Cons.IH[OF this] Received show ?thesis by simp
    qed
  next
    case Tick
    with Cons.prems
    have "consume_loop dial d [] evs
            (if calls = [] then tx
             else tx @ [\<lparr>Calls = calls, Environment = env d, Service = service d\<rparr>])
          = (st, d', calls', tx')"
      by (simp add: send_with_client[OF assms(1)])
    from Cons.IH[OF this] Tick show ?thesis by (simp split: if_splits)
  next
    case Cancelled
    with Cons.prems show ?thesis
      by (auto simp: send_with_client[OF assms(1)] split: if_splits)
  qed
qed

lemma consume_loop_batches:
  assumes "client d = Some c"
    and "consume_loop dial d calls evs tx = (st, d', calls', tx')"
    and "length calls < bufferSize"
  shows "(\<exists>new. tx' = tx @ new \<and> list_all (batch_of d) new)
    \<and> (st = Waiting \<longrightarrow> length calls' < bufferSize)"
  using assms(2,3)
proof (induction evs arbitrary: calls tx)
  case Nil
  then show ?case by auto
next
  case (Cons ev evs)
  have flush: "(\<exists>new. tx' = tx @ new \<and> list_all (batch_of d) new)
      \<and> (st = Waiting \<longrightarrow> length calls' < bufferSize)"
    if run: "consume_loop dial d [] evs
               (tx @ [\<lparr>Calls = batch, Environment = env d, Service = service d\<rparr>])
             = (st, d', calls', tx')"
      and b: "0 < length batch" "length batch \<le> bufferSize" for batch
  proof -
    let ?req = "\<lparr>Calls = batch, Environment = env d, Service = service d\<rparr>"
    have "length ([] :: Call list) < bufferSize" by (simp add: bufferSize_def)
    from Cons.IH[OF run this] obtain new where n: "tx' = (tx @ [?req]) @ new"
      "list_all (batch_of d) new" and w: "st = Waiting \<longrightarrow> length calls' < bufferSize"
      by blast
    have "batch_of d ?req" using b by (simp add: batch_of_def)
    with n have "tx' = tx @ (?req # new) \<and> list_all (batch_of d) (?req # new)" by simp
    with w show ?thesis by blast
  qed
  show ?case
  proof (cases ev)
    case (Received x)
    show ?thesis
    proof (cases "length (calls @ [x]) = bufferSize")
      case True
      with Cons.prems Received
      have "consume_loop dial d [] evs
              (tx @ [\<lparr>Calls = calls @ [x], Environment = env d, Service = service d\<rparr>])
            = (st, d', calls', tx')"
        by (simp add: send_with_client[OF assms(1)])
      from flush[OF this] True show ?thesis by (simp add: bufferSize_def)
    next
      case False
      with Cons.prems Received
      have "consume_loop dial d (calls @ [x]) evs tx = (st, d', calls', tx')"
        and "length (calls @ [x]) < bufferSize"
        by auto
      from Cons.IH[OF this] show ?thesis .
    qed
  next
    case Tick
    show ?thesis
    proof (cases "calls = []")
      case True
      with Cons.prems Tick have "consume_loop dial d [] evs tx = (st, d', calls', tx')"
        by (simp add: send_with_client[OF assms(1)])
      moreover have "length ([] :: Call list) < bufferSize" by (simp add: bufferSize_def)
      ultimately show ?thesis by (rule Cons.IH)
    next
      case False
      with Cons.prems Tick
      have "consume_loop dial d [] evs
              (tx @ [\<lparr>Calls = calls, Environment = env d, Service = service d\<rparr>])
            = (st, d', calls', tx')"
        by (simp add: send_with_client[OF assms(1)])
      from flush[OF this] False Cons.prems(2) show ?thesis by simp
    qed
  next
    case Cancelled
    show ?thesis
    proof (cases "calls = []")
      case True
      with Cons.prems Cancelled show ?thesis
        by (simp add: send_with_client[OF assms(1)])
    next
      case False
      let ?req = "\<lparr>Calls = calls, Environment = env d, Service = service d\<rparr>"
      from False Cons.prems Cancelled have "tx' = tx @ [?req]" "st = Exited"
        by (auto simp: send_with_client[OF assms(1)])
      moreover have "batch_of d ?req" using False Cons.prems(2) by (simp add: batch_of_def)
      ultimately show ?thesis by simp
    qed
  qed
qed

text \<open>
  Claim C9. In the worker's loop a received record is appended to the batch, and when the
  batch then holds \<open>bufferSize = 100\<close> records it is handed to \<open>send\<close> and the loop goes on
  with the empty batch; on cancellation the batch is handed to \<open>send\<close> and the worker
  exits. \<open>send\<close> does nothing with an empty batch, and \<open>RecordCalls\<close> transmits nothing for
  an empty list. With a client in place, the records transmitted, followed by the batch
  still held while the worker waits, are the records held and received, in their order;
  every batch transmitted is non-empty, holds at most 100 records and carries the daemon's
  environment and service; and the batch held at the head of the loop stays below 100.
  A daemon that is not enabled has no loop: the worker exits at once.
\<close>

theorem C9_batching:
  "consume_loop dial d calls (Received x # evs) tx =
     (if length calls + 1 = bufferSize
      then consume_loop dial (fst (send dial d (calls @ [x]) tx)) [] evs
             (snd (send dial d (calls @ [x]) tx))
      else consume_loop dial d (calls @ [x]) evs tx)
   \<and> bufferSize = 100
   \<and> consume_loop dial d calls (Cancelled # evs) tx =
       (Exited, fst (send dial d calls tx), calls, snd (send dial d calls tx))
   \<and> send dial d [] tx = (d, tx)
   \<and> client_RecordCalls c \<lparr>Calls = [], Environment = e, Service = sv\<rparr> tx = (None, tx)
   \<and> (client d = Some cl \<longrightarrow>
        send dial d calls tx =
          (d, if calls = [] then tx
              else tx @ [\<lparr>Calls = calls, Environment = env d, Service = service d\<rparr>]))
   \<and> (client d = Some cl \<and> consume_loop dial d calls evs tx = (st, d', calls', tx') \<longrightarrow>
        concat (map Calls tx') @ (if st = Waiting then calls' else [])
          = concat (map Calls tx) @ calls @ received evs)
   \<and> (client d = Some cl \<and> consume_loop dial d calls evs tx = (st, d', calls', tx')
        \<and> length calls < bufferSize \<longrightarrow>
        (\<exists>new. tx' = tx @ new \<and> list_all (batch_of d) new)
        \<and> (st = Waiting \<longrightarrow> length calls' < bufferSize))
   \<and> (\<not> enabled d \<longrightarrow> consumeCalls dial d evs tx = (Exited, d, [], tx))
   \<and> (enabled d \<longrightarrow> consumeCalls dial d evs tx = consume_loop dial d [] evs tx)"
proof (intro conjI impI)
  show "consume_loop dial d calls (Received x # evs) tx =
     (if length calls + 1 = bufferSize
      then consume_loop dial (fst (send dial d (calls @ [x]) tx)) [] evs
             (snd (send dial d (calls @ [x]) tx))
      else consume_loop dial d (calls @ [x]) evs tx)"
    by (simp add: Let_def split_beta)
  show "bufferSize = 100" by (simp add: bufferSize_def)
  show "consume_loop dial d calls (Cancelled # evs) tx =
       (Exited, fst (send dial d calls tx), calls, snd (send dial d calls tx))"
    by (simp add: split_beta)
  show "send dial d [] tx = (d, tx)" by (rule send_empty)
  show "client_RecordCalls c \<lparr>Calls = [], Environment = e, Service = sv\<rparr> tx = (None, tx)"
    by (rule RecordCalls_empty)
next
  assume "client d = Some cl"
  then show "send dial d calls tx =
          (d, if calls = [] then tx
              else tx @ [\<lparr>Calls = calls, Environment = env d, Service = service d\<rparr>])"
    by (rule send_with_client)
next
  assume "client d = Some cl \<and> consume_loop dial d calls evs tx = (st, d', calls', tx')"
  then show "concat (map Calls tx') @ (if st = Waiting then calls' else [])
          = concat (map Calls tx) @ calls @ received evs"
    using consume_loop_conserves[of d cl dial calls evs tx st d' calls' tx'] by blast
next
  assume h: "client d = Some cl \<and> consume_loop dial d calls evs tx = (st, d', calls', tx')
        \<and> length calls < bufferSize"
  from h show "\<exists>new. tx' = tx @ new \<and> list_all (batch_of d) new"
    using consume_loop_batches[of d cl dial calls evs tx st d' calls' tx'] by blast
  {
    assume "st = Waiting"
    with h show "length calls' < bufferSize"
      using consume_loop_batches[of d cl dial calls evs tx st d' calls' tx'] by blast
  }
next
  assume "\<not> enabled d"
  then show "consumeCalls dial d evs tx = (Exited, d, [], tx)" by (simp add: consumeCalls_def)
next
  assume "enabled d"
  then show "consumeCalls dial d evs tx = consume_loop dial d [] evs tx"
    by (simp add: consumeCalls_def)
qed

lemma mock_daemon_fields:
  "client mock_daemon = Some \<lparr>api = (\<lambda>req. None)\<rparr>" "env mock_daemon = ''''"
  "service mock_daemon = ''web''"
  by (simp_all add: mock_daemon_def NewD_def)

theorem C9_batching_witness:
  "enabled mock_daemon
   \<and> consumeCalls (\<lambda>host. None) mock_daemon [Received call_a, Received call_b, Cancelled] [] =
       (Exited, mock_daemon, [call_a, call_b],
        [\<lparr>Calls = [call_a, call_b], Environment = '''', Service = ''web''\<rparr>])
   \<and> consume_loop (\<lambda>host. None) mock_daemon (replicate 99 call_a) [Received call_b] [] =
       (Waiting, mock_daemon, [],
        [\<lparr>Calls = replicate 99 call_a @ [call_b], Environment = '''', Service = ''web''\<rparr>])
   \<and> send (\<lambda>host. None) mock_daemon [] [] = (mock_daemon, [])"
proof -
  have en: "enabled mock_daemon"
    by (simp add: enabled_def mock_daemon_fields)
  note A = C9_batching[where d = mock_daemon and dial = "\<lambda>host. None"
      and evs = "[Received call_a, Received call_b, Cancelled]" and tx = "[]"
      and cl = "\<lparr>api = (\<lambda>req. None)\<rparr>"]
  note B = C9_batching[where d = mock_daemon and dial = "\<lambda>host. None"
      and calls = "replicate 99 call_a" and x = call_b and evs = "[]" and tx = "[]"
      and cl = "\<lparr>api = (\<lambda>req. None)\<rparr>"]
  have snd_client: "send (\<lambda>host. None) mock_daemon calls tx =
          (mock_daemon, if calls = [] then tx
              else tx @ [\<lparr>Calls = calls, Environment = '''', Service = ''web''\<rparr>])" for calls tx
    using C9_batching[where d = mock_daemon and dial = "\<lambda>host. None" and calls = calls and tx = tx
      and cl = "\<lparr>api = (\<lambda>req. None)\<rparr>"]
    by (simp add: mock_daemon_fields)
  from A en have "consumeCalls (\<lambda>host. None) mock_daemon [Received call_a, Received call_b, Cancelled] []
      = consume_loop (\<lambda>host. None) mock_daemon [] [Received call_a, Received call_b, Cancelled] []"
    by blast
  then have 1: "consumeCalls (\<lambda>host. None) mock_daemon [Received call_a, Received call_b, Cancelled] [] =
       (Exited, mock_daemon, [call_a, call_b],
        [\<lparr>Calls = [call_a, call_b], Environment = '''', Service = ''web''\<rparr>])"
    by (simp add: snd_client bufferSize_def Let_def)
  from B have "consume_loop (\<lambda>host. None) mock_daemon (replicate 99 call_a) (Received call_b # []) [] =
     (if length (replicate 99 call_a) + 1 = bufferSize
      then consume_loop (\<lambda>host. None)
             (fst (send (\<lambda>host. None) mock_daemon (replicate 99 call_a @ [call_b]) [])) [] []
             (snd (send (\<lambda>host. None) mock_daemon (replicate 99 call_a @ [call_b]) []))
      else consume_loop (\<lambda>host. None) mock_daemon (replicate 99 call_a @ [call_b]) [] [])"
    by blast
  then have 2: "consume_loop (\<lambda>host. None) mock_daemon (replicate 99 call_a) [Received call_b] [] =
       (Waiting, mock_daemon, [],
        [\<lparr>Calls = replicate 99 call_a @ [call_b], Environment = '''', Service = ''web''\<rparr>])"
    by (simp add: snd_client bufferSize_def Let_def del: consume_loop.simps(2))
  from en 1 2 show ?thesis by (simp add: snd_client)
qed

end
